theory Spec2Isabelle
  imports Complex_Main "HOL-Library.AList" "HOL-Library.Log_Nat"
begin

section \<open>Numbers of the runtime\<close>

text \<open>
  A JavaScript number is an IEEE 754 double: a finite value, one of the two infinities,
  or NaN. A finite double is kept as the rational number it stands for. The sign of zero
  is not kept: the code below divides only by a positive count or by 100, and neither
  comparison nor conversion to text tells the two zeros apart.
\<close>

datatype num = Fin rat | PosInf | NegInf | NaN

text \<open>For positive \<open>x\<close>, the exponent \<open>e\<close> with \<open>2 powi e \<le> x < 2 powi (e + 1)\<close>.\<close>

definition ilog2 :: "rat \<Rightarrow> int" where
  "ilog2 x = (if 1 \<le> x then bitlen \<lfloor>x\<rfloor> - 1 else - bitlen (\<lceil>1 / x\<rceil> - 1))"

text \<open>The nearest integer, a tie going to the even one.\<close>

definition roundEven :: "rat \<Rightarrow> int" where
  "roundEven y =
     (let f = \<lfloor>y\<rfloor>; r = y - of_int f
      in if r < 1 / 2 then f
         else if 1 / 2 < r then f + 1
         else if even f then f else f + 1)"

text \<open>
  The double nearest to an exact result (round to nearest, ties to even): 53 significant
  bits, the least unit \<open>2 powi (- 1074)\<close>, and an infinity from \<open>2 powi 1024\<close> on.
\<close>

definition toDouble :: "rat \<Rightarrow> num" where
  "toDouble x =
     (if x = 0 then Fin 0
      else
        let e = ilog2 \<bar>x\<bar>;
            q = max (e - 52) (- 1074);
            y = of_int (roundEven (x / 2 powi q)) * 2 powi q
        in if 2 powi 1024 \<le> y then PosInf
           else if y \<le> - (2 powi 1024) then NegInf
           else Fin y)"

text \<open>The operators \<^verbatim>\<open>+\<close>, \<^verbatim>\<open>/\<close>, \<^verbatim>\<open>*\<close> and the test \<^verbatim>\<open>x > 0\<close> on numbers.\<close>

fun addNum :: "num \<Rightarrow> num \<Rightarrow> num" where
  "addNum (Fin a) (Fin b) = toDouble (a + b)"
| "addNum NaN b = NaN"
| "addNum a NaN = NaN"
| "addNum PosInf NegInf = NaN"
| "addNum NegInf PosInf = NaN"
| "addNum PosInf b = PosInf"
| "addNum NegInf b = NegInf"
| "addNum (Fin a) b = b"

fun divideNum :: "num \<Rightarrow> num \<Rightarrow> num" where
  "divideNum (Fin a) (Fin b) =
     (if b = 0 then (if a = 0 then NaN else if 0 < a then PosInf else NegInf)
      else toDouble (a / b))"
| "divideNum NaN b = NaN"
| "divideNum a NaN = NaN"
| "divideNum (Fin a) b = Fin 0"
| "divideNum PosInf (Fin b) = (if 0 \<le> b then PosInf else NegInf)"
| "divideNum NegInf (Fin b) = (if 0 \<le> b then NegInf else PosInf)"
| "divideNum a b = NaN"

fun multiplyNum :: "num \<Rightarrow> num \<Rightarrow> num" where
  "multiplyNum (Fin a) (Fin b) = toDouble (a * b)"
| "multiplyNum NaN b = NaN"
| "multiplyNum a NaN = NaN"
| "multiplyNum (Fin a) PosInf = (if a = 0 then NaN else if 0 < a then PosInf else NegInf)"
| "multiplyNum (Fin a) NegInf = (if a = 0 then NaN else if 0 < a then NegInf else PosInf)"
| "multiplyNum PosInf (Fin b) = (if b = 0 then NaN else if 0 < b then PosInf else NegInf)"
| "multiplyNum NegInf (Fin b) = (if b = 0 then NaN else if 0 < b then NegInf else PosInf)"
| "multiplyNum PosInf PosInf = PosInf"
| "multiplyNum NegInf NegInf = PosInf"
| "multiplyNum PosInf NegInf = NegInf"
| "multiplyNum NegInf PosInf = NegInf"

fun gt0 :: "num \<Rightarrow> bool" where
  "gt0 (Fin a) = (0 < a)"
| "gt0 PosInf = True"
| "gt0 NegInf = False"
| "gt0 NaN = False"

text \<open>
  \<^verbatim>\<open>Math.round\<close>: the nearest integer, a tie going towards plus infinity; infinities
  and NaN are returned as they are.
\<close>

fun Math_round :: "num \<Rightarrow> num" where
  "Math_round (Fin x) = Fin (of_int \<lfloor>x + 1 / 2\<rfloor>)"
| "Math_round PosInf = PosInf"
| "Math_round NegInf = NegInf"
| "Math_round NaN = NaN"


section \<open>Team statistics (CoachDashboard.jsx, calculateTeamStats)\<close>

text \<open>
  A numeric field of a player document holds a finite number or is missing; a text field
  holds a string or is missing. The value of a numeric field is kept as a rational
  number, and the arithmetic reads it through \<open>toDouble\<close>, which leaves a double as
  it is.
\<close>

record player =
  name :: "string option"
  email :: "string option"
  sport :: "string option"
  currentScore :: "rat option"
  matchCount :: "rat option"
  totalScore :: "rat option"
  averageScore :: "rat option"

record teamStats =
  totalPlayers :: nat
  teamAverageScore :: num
  totalMatches :: num
  topPerformer :: "player option"

text \<open>\<^verbatim>\<open>x || 0\<close> on a numeric field: a missing value (and 0 itself) gives 0.\<close>

fun or0 :: "rat option \<Rightarrow> rat" where
  "or0 None = 0"
| "or0 (Some x) = x"

text \<open>The callback of the \<^verbatim>\<open>reduce\<close> that picks the top performer; \<open>None\<close> is \<^verbatim>\<open>null\<close>.\<close>

fun topStep :: "player option \<Rightarrow> player \<Rightarrow> player option" where
  "topStep None p = Some p"
| "topStep (Some best) p =
     (let playerAvg = or0 (averageScore p)
      in if playerAvg > or0 (averageScore best) then Some p else Some best)"

definition calculateTeamStats :: "player list \<Rightarrow> teamStats" where
  "calculateTeamStats playersData =
     (if length playersData = 0 then
        \<lparr>totalPlayers = 0, teamAverageScore = Fin 0, totalMatches = Fin 0, topPerformer = None\<rparr>
      else
        let totalPlayers' = length playersData;
            totalMatches' =
              foldl (\<lambda>sum p. addNum sum (toDouble (or0 (matchCount p)))) (Fin 0) playersData;
            totalScore' =
              foldl (\<lambda>sum p. addNum sum (toDouble (or0 (totalScore p)))) (Fin 0) playersData;
            averageScore' =
              (if gt0 totalMatches' then divideNum totalScore' totalMatches' else Fin 0);
            topPerformer' = foldl topStep None
                              (filter (\<lambda>p. or0 (matchCount p) > 0) playersData)
        in \<lparr>totalPlayers = totalPlayers',
            teamAverageScore =
              divideNum (Math_round (multiplyNum averageScore' (Fin 100))) (Fin 100),
            totalMatches = totalMatches',
            topPerformer = topPerformer'\<rparr>)"

text \<open>
  The rounding the specification describes: the nearest integer, a tie going away from
  zero; and the value the specification gives for a total score \<open>t\<close> over \<open>m\<close>
  matches, computed exactly.
\<close>

definition round_half_away :: "rat \<Rightarrow> rat" where
  "round_half_away x = (if 0 \<le> x then of_int \<lfloor>x + 1 / 2\<rfloor> else - of_int \<lfloor>- x + 1 / 2\<rfloor>)"

definition round2 :: "rat \<Rightarrow> rat" where
  "round2 x = round_half_away (x * 100) / 100"

text \<open>The sum of a field over a roster as the code accumulates it, from the left.\<close>

definition sumNum :: "(player \<Rightarrow> rat option) \<Rightarrow> player list \<Rightarrow> num" where
  "sumNum f ps = foldl (\<lambda>sum p. addNum sum (toDouble (or0 (f p)))) (Fin 0) ps"

text \<open>A number that is a double: finite values are fixed by the rounding.\<close>

fun isDouble :: "num \<Rightarrow> bool" where
  "isDouble (Fin y) = (toDouble y = Fin y)"
| "isDouble PosInf = True"
| "isDouble NegInf = True"
| "isDouble NaN = True"

definition eligible :: "player list \<Rightarrow> player list" where
  "eligible ps = filter (\<lambda>p. 0 < or0 (matchCount p)) ps"

text \<open>Records with matchCount 0 (or missing) taken out of a roster.\<close>

definition dropZeroMatch :: "player list \<Rightarrow> player list" where
  "dropZeroMatch ps = filter (\<lambda>p. or0 (matchCount p) \<noteq> 0) ps"

text \<open>The index of the record the specification selects: the first one with the highest average.\<close>

definition first_best :: "player list \<Rightarrow> nat \<Rightarrow> bool" where
  "first_best qs i \<longleftrightarrow>
     i < length qs \<and>
     (\<forall>j<length qs. or0 (averageScore (qs ! j)) \<le> or0 (averageScore (qs ! i))) \<and>
     (\<forall>j<i. or0 (averageScore (qs ! j)) < or0 (averageScore (qs ! i)))"

text \<open>Sample records.\<close>

definition samplePlayer :: "string \<Rightarrow> rat \<Rightarrow> rat \<Rightarrow> rat \<Rightarrow> player" where
  "samplePlayer n m t a =
     \<lparr>name = Some n, email = Some (n @ ''@team.example''), sport = Some ''cricket'',
      currentScore = Some a, matchCount = Some m, totalScore = Some t, averageScore = Some a\<rparr>"


section \<open>Report export (CoachDashboard.jsx, handleExportReport)\<close>

text \<open>\<^verbatim>\<open>getPerformanceStatus\<close>: the display label of a score.\<close>

definition getPerformanceStatus :: "rat \<Rightarrow> string" where
  "getPerformanceStatus score =
     (if score \<ge> 80 then ''Excellent''
      else if score \<ge> 60 then ''Good''
      else ''Needs Improvement'')"

text \<open>\<^verbatim>\<open>x || ''\<close> on a text field: a missing value gives the empty string.\<close>

fun orEmpty :: "string option \<Rightarrow> string" where
  "orEmpty None = []"
| "orEmpty (Some s) = s"

text \<open>
  A cell of the report is a string or a number. \<^verbatim>\<open>String(cell)\<close> leaves a string as it
  is; the conversion of a number to its decimal text belongs to the language runtime and
  is a parameter \<open>numToString\<close> of the model.
\<close>

datatype cell = Str string | Num num

fun String_cell :: "(num \<Rightarrow> string) \<Rightarrow> cell \<Rightarrow> string" where
  "String_cell numToString (Str s) = s"
| "String_cell numToString (Num x) = numToString x"

definition comma :: char where "comma = CHR 0x2C"
definition dquote :: char where "dquote = CHR 0x22"
definition newline :: char where "newline = CHR 0x0A"

text \<open>\<^verbatim>\<open>Array.prototype.join\<close> on an array of strings.\<close>

fun join :: "string \<Rightarrow> string list \<Rightarrow> string" where
  "join sep [] = []"
| "join sep [x] = x"
| "join sep (x # y # ys) = x @ sep @ join sep (y # ys)"

text \<open>\<^verbatim>\<open>cellStr.replace(/"/g, '""')\<close>: every double quote is written twice.\<close>

fun replaceQuotes :: "string \<Rightarrow> string" where
  "replaceQuotes [] = []"
| "replaceQuotes (c # cs) = (if c = dquote then [dquote, dquote] else [c]) @ replaceQuotes cs"

text \<open>The callback applied to each cell, on the cell's string form.\<close>

definition escapeStr :: "string \<Rightarrow> string" where
  "escapeStr cellStr =
     (if comma \<in> set cellStr \<or> dquote \<in> set cellStr \<or> newline \<in> set cellStr
      then [dquote] @ replaceQuotes cellStr @ [dquote]
      else cellStr)"

definition escapeCell :: "(num \<Rightarrow> string) \<Rightarrow> cell \<Rightarrow> string" where
  "escapeCell numToString c = escapeStr (String_cell numToString c)"

definition headers :: "cell list" where
  "headers = [Str ''Player Name'', Str ''Email'', Str ''Sport'', Str ''Current Score (%)'',
              Str ''Performance Status'', Str ''Total Matches'', Str ''Average Score'']"

definition playerRow :: "player \<Rightarrow> cell list" where
  "playerRow p =
     [Str (orEmpty (name p)),
      Str (orEmpty (email p)),
      Str (orEmpty (sport p)),
      Num (Fin (or0 (currentScore p))),
      Str (getPerformanceStatus (or0 (currentScore p))),
      Num (Fin (or0 (matchCount p))),
      Num (Fin (or0 (averageScore p)))]"

text \<open>\<^verbatim>\<open>teamStats.topPerformer?.name || 'N/A'\<close>: an empty name counts as missing.\<close>

definition topPerformerName :: "teamStats \<Rightarrow> string" where
  "topPerformerName ts =
     (case topPerformer ts of
        None \<Rightarrow> ''N/A''
      | Some p \<Rightarrow> (case name p of None \<Rightarrow> ''N/A'' | Some n \<Rightarrow> if n = [] then ''N/A'' else n))"

text \<open>
  The state the export reads: the name of the signed-in user, the players and the team
  statistics; \<open>today\<close> is the text of \<^verbatim>\<open>new Date().toLocaleDateString()\<close>.
\<close>

record dashboard =
  userName :: "string option"
  players :: "player list"
  teamStatsOf :: teamStats

definition summaryRows :: "(num \<Rightarrow> string) \<Rightarrow> string \<Rightarrow> dashboard \<Rightarrow> cell list list" where
  "summaryRows numToString today d =
     [[Str ''Team Performance Report''],
      [Str ''Coach Name'', Str (orEmpty (userName d))],
      [Str ''Report Date'', Str today],
      [Str ''''],
      [Str ''Team Statistics''],
      [Str ''Total Players'', Num (Fin (of_nat (totalPlayers (teamStatsOf d))))],
      [Str ''Team Average Score'', Str (numToString (teamAverageScore (teamStatsOf d)) @ ''%'')],
      [Str ''Total Matches'', Num (totalMatches (teamStatsOf d))],
      [Str ''Top Performer'', Str (topPerformerName (teamStatsOf d))],
      [Str ''''],
      [Str ''Player Details'']]"

definition allRows :: "(num \<Rightarrow> string) \<Rightarrow> string \<Rightarrow> dashboard \<Rightarrow> cell list list" where
  "allRows numToString today d =
     summaryRows numToString today d @ [headers] @ map playerRow (players d)"

text \<open>The text \<^verbatim>\<open>csvContent\<close> that \<^verbatim>\<open>handleExportReport\<close> hands to the download.\<close>

definition handleExportReport :: "(num \<Rightarrow> string) \<Rightarrow> string \<Rightarrow> dashboard \<Rightarrow> string" where
  "handleExportReport numToString today d =
     join [newline]
       (map (\<lambda>row. join [comma] (map (escapeCell numToString) row))
            (allRows numToString today d))"

text \<open>
  Reading the report back: a parser for comma-separated text in which a cell that starts
  with a double quote runs to its closing double quote, two double quotes in a row inside
  it standing for one, and in which a line feed outside such a cell ends the row.
  \<open>cur\<close> is the cell being read, \<open>row\<close> the cells of the row before it, \<open>rows\<close> the rows
  before that.
\<close>

datatype pstate = CellStart | Unquoted | Quoted | QuoteSeen

fun csv_parse ::
  "pstate \<Rightarrow> string \<Rightarrow> string list \<Rightarrow> string list list \<Rightarrow> string \<Rightarrow> string list list" where
  "csv_parse st cur row rows [] = rows @ [row @ [cur]]"
| "csv_parse CellStart cur row rows (c # cs) =
     (if c = dquote then csv_parse Quoted [] row rows cs
      else if c = comma then csv_parse CellStart [] (row @ [cur]) rows cs
      else if c = newline then csv_parse CellStart [] [] (rows @ [row @ [cur]]) cs
      else csv_parse Unquoted (cur @ [c]) row rows cs)"
| "csv_parse Unquoted cur row rows (c # cs) =
     (if c = comma then csv_parse CellStart [] (row @ [cur]) rows cs
      else if c = newline then csv_parse CellStart [] [] (rows @ [row @ [cur]]) cs
      else csv_parse Unquoted (cur @ [c]) row rows cs)"
| "csv_parse Quoted cur row rows (c # cs) =
     (if c = dquote then csv_parse QuoteSeen cur row rows cs
      else csv_parse Quoted (cur @ [c]) row rows cs)"
| "csv_parse QuoteSeen cur row rows (c # cs) =
     (if c = dquote then csv_parse Quoted (cur @ [dquote]) row rows cs
      else if c = comma then csv_parse CellStart [] (row @ [cur]) rows cs
      else if c = newline then csv_parse CellStart [] [] (rows @ [row @ [cur]]) cs
      else csv_parse Unquoted (cur @ [c]) row rows cs)"

definition parse_csv :: "string \<Rightarrow> string list list" where
  "parse_csv s = csv_parse CellStart [] [] [] s"

text \<open>
  The text of a number for the samples below: the decimal digits of an integral number,
  which is the runtime's conversion for the integers of the samples, and the runtime's
  names of the other numbers.
\<close>

fun showNat :: "nat \<Rightarrow> string" where
  "showNat n =
     (if n < 10 then [''0123456789'' ! n]
      else showNat (n div 10) @ [''0123456789'' ! (n mod 10)])"

declare showNat.simps [simp del]

fun showInt :: "num \<Rightarrow> string" where
  "showInt (Fin x) = (if x < 0 then ''-'' @ showNat (nat (- \<lfloor>x\<rfloor>)) else showNat (nat \<lfloor>x\<rfloor>))"
| "showInt PosInf = ''Infinity''"
| "showInt NegInf = ''-Infinity''"
| "showInt NaN = ''NaN''"

definition sampleDashboard :: "string \<Rightarrow> player list \<Rightarrow> dashboard" where
  "sampleDashboard coach ps =
     \<lparr>userName = Some coach, players = ps, teamStatsOf = calculateTeamStats ps\<rparr>"


section \<open>Registration form (RegisterForm component, validateForm)\<close>

text \<open>
  Strings are lists of 8-bit characters. The white space of \<^verbatim>\<open>trim\<close> and of the regular
  expression class \<^verbatim>\<open>\s\<close> is, in that range: tab, line feed, vertical tab, form feed,
  carriage return, space and the no-break space.
\<close>

definition is_space :: "char \<Rightarrow> bool" where
  "is_space c \<longleftrightarrow> c \<in> {CHR 0x09, CHR 0x0A, CHR 0x0B, CHR 0x0C, CHR 0x0D, CHR 0x20, CHR 0xA0}"

definition trim :: "string \<Rightarrow> string" where
  "trim s = rev (dropWhile is_space (rev (dropWhile is_space s)))"

text \<open>
  Regular expressions, as far as the form uses them: literals, the class \<^verbatim>\<open>\S\<close>,
  sequence and \<^verbatim>\<open>+\<close>; the other constructors close the syntax under derivatives.
\<close>

datatype rx = Zero | One | Lit char | NonSpace | Alt rx rx | Cat rx rx | Star rx

definition Plus :: "rx \<Rightarrow> rx" where
  "Plus r = Cat r (Star r)"

fun nullable :: "rx \<Rightarrow> bool" where
  "nullable Zero = False"
| "nullable One = True"
| "nullable (Lit c) = False"
| "nullable NonSpace = False"
| "nullable (Alt r s) = (nullable r \<or> nullable s)"
| "nullable (Cat r s) = (nullable r \<and> nullable s)"
| "nullable (Star r) = True"

fun deriv :: "char \<Rightarrow> rx \<Rightarrow> rx" where
  "deriv c Zero = Zero"
| "deriv c One = Zero"
| "deriv c (Lit d) = (if c = d then One else Zero)"
| "deriv c NonSpace = (if is_space c then Zero else One)"
| "deriv c (Alt r s) = Alt (deriv c r) (deriv c s)"
| "deriv c (Cat r s) =
     (if nullable r then Alt (Cat (deriv c r) s) (deriv c s) else Cat (deriv c r) s)"
| "deriv c (Star r) = Cat (deriv c r) (Star r)"

text \<open>A match that starts at the first character of the string and ends anywhere.\<close>

fun match_here :: "rx \<Rightarrow> string \<Rightarrow> bool" where
  "match_here r [] = nullable r"
| "match_here r (c # cs) = (nullable r \<or> match_here (deriv c r) cs)"

text \<open>
  \<^verbatim>\<open>RegExp.prototype.test\<close> for a pattern without anchors: the match may start at any
  index of the string.
\<close>

fun RegExp_test :: "rx \<Rightarrow> string \<Rightarrow> bool" where
  "RegExp_test r [] = match_here r []"
| "RegExp_test r (c # cs) = (match_here r (c # cs) \<or> RegExp_test r cs)"

text \<open>The pattern \<^verbatim>\<open>/\S+@\S+\.\S+/\<close>.\<close>

definition emailPattern :: rx where
  "emailPattern =
     Cat (Plus NonSpace) (Cat (Lit (CHR ''@'')) (Cat (Plus NonSpace)
       (Cat (Lit (CHR ''.'')) (Plus NonSpace))))"

record formData =
  formName :: string
  formEmail :: string
  password :: string
  confirmPassword :: string
  role :: string
  formSport :: string

text \<open>
  The error object \<^verbatim>\<open>newErrors\<close> is an association list in insertion order; assigning
  a property is \<open>AList.update\<close>. Each \<^verbatim>\<open>if\<close> statement of \<^verbatim>\<open>validateForm\<close> is a
  function from the error object before it to the error object after it, and
  \<^verbatim>\<open>validateForm\<close> runs them in the order of the source, starting from the empty object.
\<close>

type_synonym errors = "(string \<times> string) list"

definition nameRule :: "formData \<Rightarrow> errors \<Rightarrow> errors" where
  "nameRule formData newErrors =
     (if trim (formName formData) = [] then
        AList.update ''name'' ''Full name is required'' newErrors
      else if length (trim (formName formData)) < 2 then
        AList.update ''name'' ''Name must be at least 2 characters long'' newErrors
      else newErrors)"

definition emailRule :: "formData \<Rightarrow> errors \<Rightarrow> errors" where
  "emailRule formData newErrors =
     (if trim (formEmail formData) = [] then
        AList.update ''email'' ''Email is required'' newErrors
      else if \<not> RegExp_test emailPattern (formEmail formData) then
        AList.update ''email'' ''Please enter a valid email address'' newErrors
      else newErrors)"

definition passwordRule :: "formData \<Rightarrow> errors \<Rightarrow> errors" where
  "passwordRule formData newErrors =
     (if password formData = [] then
        AList.update ''password'' ''Password is required'' newErrors
      else if length (password formData) < 6 then
        AList.update ''password'' ''Password must be at least 6 characters long'' newErrors
      else newErrors)"

definition confirmPasswordRule :: "formData \<Rightarrow> errors \<Rightarrow> errors" where
  "confirmPasswordRule formData newErrors =
     (if confirmPassword formData = [] then
        AList.update ''confirmPassword'' ''Please confirm your password'' newErrors
      else if password formData \<noteq> confirmPassword formData then
        AList.update ''confirmPassword'' ''Passwords do not match'' newErrors
      else newErrors)"

definition roleRule :: "formData \<Rightarrow> errors \<Rightarrow> errors" where
  "roleRule formData newErrors =
     (if role formData = [] then
        AList.update ''role'' ''Please select your role'' newErrors
      else newErrors)"

definition sportRule :: "formData \<Rightarrow> errors \<Rightarrow> errors" where
  "sportRule formData newErrors =
     (if role formData = ''player'' \<and> formSport formData = [] then
        AList.update ''sport'' ''Please select your sport'' newErrors
      else newErrors)"

definition validateForm :: "formData \<Rightarrow> errors" where
  "validateForm formData =
     sportRule formData (roleRule formData (confirmPasswordRule formData
       (passwordRule formData (emailRule formData (nameRule formData [])))))"

text \<open>
  The language of a regular expression; a match of the entire string, which is how the
  specification reads the pattern; and the tokens of the specification: one or more
  characters, none of them white space.
\<close>

inductive_set kstar :: "string set \<Rightarrow> string set" for A :: "string set" where
  kstar_Nil: "[] \<in> kstar A"
| kstar_App: "u \<in> A \<Longrightarrow> v \<in> kstar A \<Longrightarrow> u @ v \<in> kstar A"

fun lang :: "rx \<Rightarrow> string set" where
  "lang Zero = {}"
| "lang One = {[]}"
| "lang (Lit c) = {[c]}"
| "lang NonSpace = {[c] | c. \<not> is_space c}"
| "lang (Alt r s) = lang r \<union> lang s"
| "lang (Cat r s) = {u @ v | u v. u \<in> lang r \<and> v \<in> lang s}"
| "lang (Star r) = kstar (lang r)"

fun match_whole :: "rx \<Rightarrow> string \<Rightarrow> bool" where
  "match_whole r [] = nullable r"
| "match_whole r (c # cs) = match_whole (deriv c r) cs"

definition token :: "string \<Rightarrow> bool" where
  "token u \<longleftrightarrow> u \<noteq> [] \<and> (\<forall>c\<in>set u. \<not> is_space c)"

definition sampleForm :: "string \<Rightarrow> string \<Rightarrow> string \<Rightarrow> string \<Rightarrow> string \<Rightarrow> string \<Rightarrow> formData" where
  "sampleForm n e p c r s =
     \<lparr>formName = n, formEmail = e, password = p, confirmPassword = c, role = r, formSport = s\<rparr>"


section \<open>Properties of the numbers\<close>

lemma floor_rat_numeral:
  "\<lfloor>numeral a / numeral b :: rat\<rfloor> = numeral a div numeral b"
  by (metis floor_divide_of_int_eq of_int_numeral)

lemma ceiling_rat_numeral:
  "\<lceil>numeral a / numeral b :: rat\<rceil> = - (- numeral a div numeral b)"
  unfolding ceiling_def
  by (metis divide_minus_left floor_divide_of_int_eq of_int_neg_numeral of_int_numeral)

lemmas num_eval = toDouble_def ilog2_def roundEven_def Let_def floor_rat_numeral
  ceiling_rat_numeral compute_bitlen

subsection \<open>Powers of two and the exponent\<close>

lemma p2_pos: "0 < (2::rat) powi k"
  by (simp add: zero_less_power_int)

lemma p2_less_cancel: "(2::rat) powi a < 2 powi b \<Longrightarrow> a < b"
proof (rule ccontr)
  assume lt: "(2::rat) powi a < 2 powi b" and "\<not> a < b"
  then have "b \<le> a" by simp
  then have "(2::rat) powi b \<le> 2 powi a"
    by (intro power_int_increasing) simp_all
  with lt show False by simp
qed

lemma p2_add: "(2::rat) powi (a + b) = 2 powi a * 2 powi b"
  by (simp add: power_int_add)

lemma p2_nat: "0 \<le> k \<Longrightarrow> (2::rat) powi k = of_int (2 ^ nat k)"
  by (simp add: power_int_nonneg_exp)

lemma ilog2_bounds:
  assumes "0 < x"
  shows "2 powi ilog2 x \<le> x" and "x < 2 powi (ilog2 x + 1)"
proof -
  have "2 powi ilog2 x \<le> x \<and> x < 2 powi (ilog2 x + 1)"
  proof (cases "1 \<le> x")
    case True
    define n where "n = \<lfloor>x\<rfloor>"
    from True have n: "0 < n"
      by (simp add: n_def)
    from bitlen_bounds [OF n] have lo: "2 ^ nat (bitlen n - 1) \<le> n" and hi: "n < 2 ^ nat (bitlen n)"
      by simp_all
    from n have b: "1 \<le> bitlen n"
      using bitlen_eq_zero_iff [of n] bitlen_nonneg [of n] by linarith
    have e: "ilog2 x = bitlen n - 1"
      using True by (simp add: ilog2_def n_def)
    have "(2::rat) powi (bitlen n - 1) = of_int (2 ^ nat (bitlen n - 1))"
      using b by (intro p2_nat) simp
    also have "\<dots> \<le> of_int n"
      using lo by (simp only: of_int_le_iff)
    also have "\<dots> \<le> x"
      by (simp add: n_def)
    finally have 1: "2 powi ilog2 x \<le> x"
      by (simp add: e)
    from hi have "n + 1 \<le> 2 ^ nat (bitlen n)"
      by simp
    then have "(of_int (n + 1) :: rat) \<le> of_int (2 ^ nat (bitlen n))"
      by (simp only: of_int_le_iff)
    moreover have "x < of_int (n + 1)"
      using floor_correct [of x] by (simp add: n_def)
    moreover have "(2::rat) powi (bitlen n) = of_int (2 ^ nat (bitlen n))"
      using b by (intro p2_nat) simp
    ultimately have "x < 2 powi (ilog2 x + 1)"
      by (simp add: e)
    with 1 show ?thesis ..
  next
    case False
    define t where "t = 1 / x"
    define c where "c = \<lceil>t\<rceil>"
    define k where "k = bitlen (c - 1)"
    from False assms have t: "1 < t"
      by (simp add: t_def)
    then have c: "0 < c - 1"
      by (simp add: c_def less_ceiling_iff)
    from bitlen_bounds [OF c] have lo: "2 ^ nat (k - 1) \<le> c - 1" and hi: "c - 1 < 2 ^ nat k"
      by (simp_all add: k_def)
    from c have k: "1 \<le> k"
      using bitlen_eq_zero_iff [of "c - 1"] bitlen_nonneg [of "c - 1"] by (simp add: k_def)
    have e: "ilog2 x = - k"
      using False by (simp add: ilog2_def k_def c_def t_def)
    from hi have "c \<le> 2 ^ nat k"
      by simp
    then have ck: "(of_int c :: rat) \<le> of_int (2 ^ nat k)"
      by (simp only: of_int_le_iff)
    have "t \<le> of_int c"
      by (simp add: c_def)
    also note ck
    also have "(of_int (2 ^ nat k) :: rat) = 2 powi k"
      using k by (intro p2_nat [symmetric]) simp
    finally have "t \<le> 2 powi k" .
    then have "1 \<le> x * 2 powi k"
      using assms by (simp add: t_def field_simps)
    then have 1: "2 powi (- k) \<le> x"
      using p2_pos [of k] by (simp add: power_int_minus field_simps)
    have "(2::rat) powi (k - 1) = of_int (2 ^ nat (k - 1))"
      using k by (intro p2_nat) simp
    also have "\<dots> \<le> of_int (c - 1)"
      using lo by (simp only: of_int_le_iff)
    also have "\<dots> < t"
      using ceiling_correct [of t] by (simp add: c_def)
    finally have "2 powi (k - 1) < t" .
    then have "x * 2 powi (k - 1) < 1"
      using assms by (simp add: t_def field_simps)
    moreover have "(2::rat) powi (- k + 1) * 2 powi (k - 1) = 1"
      by (simp add: p2_add [symmetric])
    ultimately have "x * 2 powi (k - 1) < 2 powi (- k + 1) * 2 powi (k - 1)"
      by simp
    then have "x < 2 powi (- k + 1)"
      using p2_pos [of "k - 1"] by (simp only: mult_less_cancel_right_pos)
    with 1 show ?thesis
      by (simp add: e)
  qed
  then show "2 powi ilog2 x \<le> x" and "x < 2 powi (ilog2 x + 1)"
    by simp_all
qed

lemma ilog2_unique:
  assumes "2 powi e \<le> x" and "x < 2 powi (e + 1)"
  shows "ilog2 x = e"
proof -
  from p2_pos [of e] assms(1) have x: "0 < x"
    by (rule less_le_trans)
  from ilog2_bounds(1) [OF x] assms(2) have "(2::rat) powi ilog2 x < 2 powi (e + 1)"
    by simp
  then have "ilog2 x < e + 1"
    by (rule p2_less_cancel)
  moreover from ilog2_bounds(2) [OF x] assms(1) have "(2::rat) powi e < 2 powi (ilog2 x + 1)"
    by simp
  then have "e < ilog2 x + 1"
    by (rule p2_less_cancel)
  ultimately show ?thesis
    by simp
qed

lemma ilog2_scaled:
  assumes "0 < m"
  shows "ilog2 (of_int m * 2 powi q) = bitlen m - 1 + q"
proof (rule ilog2_unique)
  from bitlen_bounds [OF assms] have lo: "2 ^ nat (bitlen m - 1) \<le> m" and hi: "m < 2 ^ nat (bitlen m)"
    by simp_all
  from assms have b: "1 \<le> bitlen m"
    using bitlen_eq_zero_iff [of m] bitlen_nonneg [of m] by linarith
  have "(2::rat) powi (bitlen m - 1) = of_int (2 ^ nat (bitlen m - 1))"
    using b by (intro p2_nat) simp
  also have "\<dots> \<le> of_int m"
    using lo by (simp only: of_int_le_iff)
  finally have "(2::rat) powi (bitlen m - 1) * 2 powi q \<le> of_int m * 2 powi q"
    using p2_pos [of q] by simp
  then show "(2::rat) powi (bitlen m - 1 + q) \<le> of_int m * 2 powi q"
    by (simp only: p2_add)
  have "(of_int m :: rat) < of_int (2 ^ nat (bitlen m))"
    using hi by (simp only: of_int_less_iff)
  also have "\<dots> = 2 powi (bitlen m)"
    using b by (intro p2_nat [symmetric]) simp
  finally have "of_int m * 2 powi q < (2::rat) powi (bitlen m) * 2 powi q"
    using p2_pos [of q] by simp
  then show "of_int m * 2 powi q < (2::rat) powi (bitlen m - 1 + q + 1)"
    by (simp add: p2_add [symmetric])
qed

subsection \<open>Rounding to the nearest double\<close>

lemma roundEven_of_int: "roundEven (of_int k) = k"
  by (simp add: roundEven_def)

lemma roundEven_ge: "of_int a \<le> y \<Longrightarrow> a \<le> roundEven y"
proof -
  assume "of_int a \<le> y"
  then have "a \<le> \<lfloor>y\<rfloor>"
    by (simp add: le_floor_iff)
  then show ?thesis
    by (simp add: roundEven_def Let_def)
qed

lemma roundEven_le: "y \<le> of_int b \<Longrightarrow> roundEven y \<le> b"
proof -
  assume y: "y \<le> of_int b"
  have f: "of_int \<lfloor>y\<rfloor> \<le> y"
    by simp
  show ?thesis
  proof (cases "y = of_int \<lfloor>y\<rfloor>")
    case True
    then have "roundEven y = \<lfloor>y\<rfloor>"
      using roundEven_of_int [of "\<lfloor>y\<rfloor>"] by simp
    moreover from y have "\<lfloor>y\<rfloor> \<le> b"
      by (simp add: floor_le_iff)
    ultimately show ?thesis by simp
  next
    case False
    with f have "of_int \<lfloor>y\<rfloor> < y"
      by (auto simp: less_le)
    with y have "(of_int \<lfloor>y\<rfloor> :: rat) < of_int b"
      by simp
    then have "\<lfloor>y\<rfloor> < b"
      by (simp only: of_int_less_iff)
    then show ?thesis
      by (simp add: roundEven_def Let_def)
  qed
qed

text \<open>A value with at most 53 significant bits above the least unit is its own double.\<close>

lemma toDouble_fixed:
  assumes q: "- 1074 \<le> q" and m: "\<bar>m\<bar> \<le> 2 ^ 53"
    and fin: "\<bar>of_int m * 2 powi q :: rat\<bar> < 2 powi 1024"
  shows "toDouble (of_int m * 2 powi q) = Fin (of_int m * 2 powi q)"
proof (cases "m = 0")
  case True
  then show ?thesis
    by (simp add: toDouble_def)
next
  case False
  define y :: rat where "y = of_int m * 2 powi q"
  define M where "M = \<bar>m\<bar>"
  from False have M: "0 < M"
    by (simp add: M_def)
  have ay: "\<bar>y\<bar> = of_int M * 2 powi q"
    using p2_pos [of q] by (simp add: y_def M_def abs_mult)
  have y0: "y \<noteq> 0"
    using False p2_pos [of q] by (simp add: y_def)
  have e: "ilog2 \<bar>y\<bar> = bitlen M - 1 + q"
    unfolding ay using M by (rule ilog2_scaled)
  define q' where "q' = max (bitlen M - 1 + q - 52) (- 1074)"
  from bitlen_bounds [OF M] have "2 ^ nat (bitlen M - 1) \<le> M"
    by simp
  with m have p: "(2::int) ^ nat (bitlen M - 1) \<le> 2 ^ 53"
    by (simp add: M_def)
  have "nat (bitlen M - 1) \<le> 53"
    by (rule power_le_imp_le_exp [OF _ p]) simp
  then have b54: "bitlen M \<le> 54"
    by simp
  have "\<exists>k. y = of_int k * 2 powi q'"
  proof (cases "bitlen M \<le> 53")
    case True
    with q have d: "0 \<le> q - q'"
      by (simp add: q'_def)
    have "(2::rat) powi q = 2 powi (q - q') * 2 powi q'"
      by (simp add: p2_add [symmetric])
    also have "(2::rat) powi (q - q') = of_int (2 ^ nat (q - q'))"
      using d by (rule p2_nat)
    finally have "y = of_int (m * 2 ^ nat (q - q')) * 2 powi q'"
      by (simp add: y_def)
    then show ?thesis ..
  next
    case False
    with b54 have b: "bitlen M = 54"
      by simp
    with bitlen_bounds [OF M] have "2 ^ 53 \<le> M"
      by simp
    with m have "M = 2 ^ 53"
      by (simp add: M_def)
    then have "m = 2 ^ 53 \<or> m = - (2 ^ 53)"
      by (auto simp: M_def abs_if split: if_splits)
    then have "even m"
      by auto
    then have ev: "m = 2 * (m div 2)"
      by presburger
    from b q have q': "q' = q + 1"
      by (simp add: q'_def)
    have "y = of_int (2 * (m div 2)) * 2 powi q"
      using ev by (simp add: y_def)
    also have "\<dots> = of_int (m div 2) * (2 powi 1 * 2 powi q)"
      by simp
    also have "(2::rat) powi 1 * 2 powi q = 2 powi q'"
      unfolding q' using p2_add [of q 1] by simp
    finally show ?thesis ..
  qed
  then obtain k where k: "y = of_int k * 2 powi q'"
    by blast
  then have "y / 2 powi q' = of_int k"
    using p2_pos [of q'] by simp
  then have "of_int (roundEven (y / 2 powi q')) * 2 powi q' = y"
    using k by (simp add: roundEven_of_int)
  moreover from fin have "\<not> 2 powi 1024 \<le> y" and "\<not> y \<le> - (2 powi 1024)"
    by (simp_all add: y_def abs_less_iff)
  ultimately have "toDouble y = Fin y"
    using y0 e by (simp add: toDouble_def Let_def q'_def)
  then show ?thesis
    by (simp add: y_def)
qed

text \<open>Every finite result of the rounding has that shape.\<close>

lemma toDouble_shape:
  assumes "toDouble x = Fin y"
  shows "\<exists>m q. y = of_int m * 2 powi q \<and> - 1074 \<le> q \<and> \<bar>m\<bar> \<le> 2 ^ 53 \<and> \<bar>y\<bar> < 2 powi 1024"
proof (cases "x = 0")
  case True
  with assms have "y = of_int 0 * 2 powi 0"
    by (simp add: toDouble_def)
  then have "y = of_int 0 * 2 powi 0 \<and> - 1074 \<le> (0::int) \<and> \<bar>0::int\<bar> \<le> 2 ^ 53 \<and> \<bar>y\<bar> < 2 powi 1024"
    using p2_pos [of 1024] by simp
  then show ?thesis by blast
next
  case False
  define e where "e = ilog2 \<bar>x\<bar>"
  define q where "q = max (e - 52) (- 1074)"
  define s where "s = x / 2 powi q"
  define m where "m = roundEven s"
  from False have ax: "0 < \<bar>x\<bar>"
    by simp
  have y: "y = of_int m * 2 powi q" and fin: "\<bar>y\<bar> < 2 powi 1024"
    using assms False
    by (auto simp: toDouble_def Let_def e_def q_def s_def m_def abs_less_iff split: if_splits)
  have "\<bar>x\<bar> < 2 powi (e + 1)"
    unfolding e_def using ax by (rule ilog2_bounds(2))
  also have "(2::rat) powi (e + 1) = 2 powi (e + 1 - q) * 2 powi q"
    by (simp add: p2_add [symmetric])
  finally have "\<bar>x\<bar> / 2 powi q < 2 powi (e + 1 - q)"
    using p2_pos [of q] by (simp add: field_simps)
  also have "(2::rat) powi (e + 1 - q) \<le> 2 powi 53"
    by (intro power_int_increasing) (simp_all add: q_def)
  finally have "\<bar>s\<bar> < 2 powi 53"
    using p2_pos [of q] by (simp add: s_def abs_divide)
  then have hi: "s \<le> of_int (2 ^ 53)" and lo: "of_int (- (2 ^ 53)) \<le> s"
    by (simp_all add: abs_less_iff)
  from hi have "m \<le> 2 ^ 53"
    unfolding m_def by (rule roundEven_le)
  moreover from lo have "- (2 ^ 53) \<le> m"
    unfolding m_def by (rule roundEven_ge)
  ultimately have "\<bar>m\<bar> \<le> 2 ^ 53"
    by simp
  with y fin have "y = of_int m * 2 powi q \<and> - 1074 \<le> q \<and> \<bar>m\<bar> \<le> 2 ^ 53 \<and> \<bar>y\<bar> < 2 powi 1024"
    by (simp add: q_def)
  then show ?thesis by blast
qed

lemma toDouble_idem: "toDouble x = Fin y \<Longrightarrow> toDouble y = Fin y"
proof -
  assume "toDouble x = Fin y"
  then obtain m q where "y = of_int m * 2 powi q" "- 1074 \<le> q" "\<bar>m\<bar> \<le> 2 ^ 53"
    "\<bar>y\<bar> < 2 powi 1024"
    using toDouble_shape by blast
  then show ?thesis
    using toDouble_fixed [of q m] by simp
qed

lemma toDouble_of_int: "\<bar>k\<bar> \<le> 2 ^ 53 \<Longrightarrow> toDouble (of_int k) = Fin (of_int k)"
proof -
  assume k: "\<bar>k\<bar> \<le> 2 ^ 53"
  then have "\<bar>of_int k :: rat\<bar> \<le> of_int (2 ^ 53)"
    by (simp only: of_int_abs [symmetric] of_int_le_iff)
  also have "(of_int (2 ^ 53) :: rat) < 2 powi 1024"
    by simp
  finally have "\<bar>of_int k * 2 powi 0 :: rat\<bar> < 2 powi 1024"
    by simp
  with k show ?thesis
    using toDouble_fixed [of 0 k] by simp
qed


section \<open>Properties of the team statistics\<close>

lemma toDouble_zero: "toDouble 0 = Fin 0"
  by (simp add: toDouble_def)

lemma Math_round_zero: "Math_round (Fin 0) = Fin 0"
proof -
  have "\<lfloor>1 / 2 :: rat\<rfloor> = 0"
    by (rule floor_unique) simp_all
  then show ?thesis
    by simp
qed

lemma sumNum_Nil: "sumNum f [] = Fin 0"
  by (simp add: sumNum_def)

lemma sumNum_snoc: "sumNum f (ps @ [p]) = addNum (sumNum f ps) (toDouble (or0 (f p)))"
  by (simp add: sumNum_def)

lemma average_unfold:
  "teamAverageScore (calculateTeamStats ps) =
     (if gt0 (sumNum matchCount ps)
      then divideNum (Math_round (multiplyNum
             (divideNum (sumNum totalScore ps) (sumNum matchCount ps)) (Fin 100))) (Fin 100)
      else Fin 0)"
proof (cases "ps = []")
  case True
  then show ?thesis
    by (simp add: calculateTeamStats_def sumNum_def)
next
  case False
  then show ?thesis
    by (simp add: calculateTeamStats_def sumNum_def Let_def toDouble_zero Math_round_zero
        del: Math_round.simps)
qed

subsection \<open>Sums of doubles\<close>

lemma isDouble_toDouble: "isDouble (toDouble x)"
  by (cases "toDouble x") (simp_all add: toDouble_idem)

lemma isDouble_addNum: "isDouble (addNum a b)"
  by (cases a; cases b) (simp_all add: isDouble_toDouble)

lemma addNum_zero: "isDouble a \<Longrightarrow> addNum a (Fin 0) = a"
  by (cases a) simp_all

lemma foldl_addNum_drop:
  assumes "\<forall>p\<in>set ps. \<not> keep p \<longrightarrow> g p = 0" and "isDouble a"
  shows "foldl (\<lambda>sum p. addNum sum (toDouble (g p))) a (filter keep ps) =
         foldl (\<lambda>sum p. addNum sum (toDouble (g p))) a ps"
  using assms
proof (induction ps arbitrary: a)
  case Nil
  then show ?case by simp
next
  case (Cons p ps)
  show ?case
  proof (cases "keep p")
    case True
    with Cons.prems Cons.IH [of "addNum a (toDouble (g p))"] show ?thesis
      by (simp add: isDouble_addNum)
  next
    case False
    with Cons.prems have "addNum a (toDouble (g p)) = a"
      by (simp add: addNum_zero toDouble_zero)
    with False Cons.prems Cons.IH [of a] show ?thesis
      by simp
  qed
qed

lemma sumNum_exact:
  assumes "\<forall>p\<in>set ps. or0 (f p) \<in> \<nat>"
    and "sum_list (map (\<lambda>p. or0 (f p)) ps) \<le> 2 ^ 53"
  shows "sumNum f ps = Fin (sum_list (map (\<lambda>p. or0 (f p)) ps))"
  using assms
proof (induction ps rule: rev_induct)
  case Nil
  then show ?case
    by (simp add: sumNum_Nil)
next
  case (snoc p ps)
  let ?S = "sum_list (map (\<lambda>p. or0 (f p)) ps)"
  from snoc.prems(1) have x: "or0 (f p) \<in> \<nat>" and all: "\<forall>p\<in>set ps. or0 (f p) \<in> \<nat>"
    by simp_all
  from x have "0 \<le> or0 (f p)"
    by (auto simp: Nats_def)
  with snoc.prems(2) have "?S \<le> 2 ^ 53"
    by simp
  with all have IH: "sumNum f ps = Fin ?S"
    by (rule snoc.IH)
  from all have "?S \<in> \<nat>"
    by (induction ps) simp_all
  with x have "?S + or0 (f p) \<in> \<nat>"
    by simp
  then obtain n where n: "?S + or0 (f p) = of_nat n"
    by (auto simp: Nats_def)
  from x obtain k where k: "or0 (f p) = of_nat k"
    by (auto simp: Nats_def)
  from \<open>?S \<in> \<nat>\<close> have "0 \<le> ?S"
    by (auto simp: Nats_def)
  with snoc.prems(2) have "or0 (f p) \<le> 2 ^ 53"
    by simp
  with k have "(of_nat k :: rat) \<le> of_nat (2 ^ 53)"
    by simp
  then have "k \<le> 2 ^ 53"
    by (simp only: of_nat_le_iff)
  then have "\<bar>int k\<bar> \<le> 2 ^ 53"
    by simp
  then have "toDouble (of_int (int k)) = Fin (of_int (int k))"
    by (rule toDouble_of_int)
  with k have dx: "toDouble (or0 (f p)) = Fin (or0 (f p))"
    by simp
  from n snoc.prems(2) have "(of_nat n :: rat) \<le> 2 ^ 53"
    by simp
  then have "(of_nat n :: rat) \<le> of_nat (2 ^ 53)"
    by simp
  then have "n \<le> 2 ^ 53"
    by (simp only: of_nat_le_iff)
  then have "\<bar>int n\<bar> \<le> 2 ^ 53"
    by simp
  then have "toDouble (of_int (int n)) = Fin (of_int (int n))"
    by (rule toDouble_of_int)
  with n have "toDouble (?S + or0 (f p)) = Fin (?S + or0 (f p))"
    by simp
  with IH dx show ?case
    by (simp add: sumNum_snoc)
qed

lemma first_best_single: "first_best [p] 0"
  by (simp add: first_best_def)

lemma first_best_keep:
  assumes "first_best qs i" and "\<not> or0 (averageScore (qs ! i)) < or0 (averageScore p)"
  shows "first_best (qs @ [p]) i"
proof -
  from assms(1) have i: "i < length qs"
    by (simp add: first_best_def)
  have "or0 (averageScore ((qs @ [p]) ! j)) \<le> or0 (averageScore (qs ! i))"
    if "j < length (qs @ [p])" for j
  proof (cases "j < length qs")
    case True
    with assms(1) show ?thesis
      by (simp add: first_best_def nth_append)
  next
    case False
    with that have "j = length qs" by simp
    with assms(2) show ?thesis by simp
  qed
  moreover have "or0 (averageScore ((qs @ [p]) ! j)) < or0 (averageScore (qs ! i))"
    if "j < i" for j
    using that assms(1) i by (simp add: first_best_def nth_append)
  ultimately show ?thesis
    using i by (simp add: first_best_def nth_append)
qed

lemma first_best_replace:
  assumes "first_best qs i" and "or0 (averageScore (qs ! i)) < or0 (averageScore p)"
  shows "first_best (qs @ [p]) (length qs)"
proof -
  have "or0 (averageScore (qs ! j)) < or0 (averageScore p)" if "j < length qs" for j
  proof -
    from assms(1) that have "or0 (averageScore (qs ! j)) \<le> or0 (averageScore (qs ! i))"
      by (simp add: first_best_def)
    with assms(2) show ?thesis by simp
  qed
  then have lt: "\<forall>j<length qs. or0 (averageScore (qs ! j)) < or0 (averageScore p)"
    by blast
  then have "\<forall>j<length qs. or0 (averageScore (qs ! j)) \<le> or0 (averageScore p)"
    by (simp add: less_imp_le)
  with lt show ?thesis
    by (simp add: first_best_def nth_append less_Suc_eq)
qed

lemma foldl_topStep_first_best:
  "qs \<noteq> [] \<Longrightarrow> \<exists>i. first_best qs i \<and> foldl topStep None qs = Some (qs ! i)"
proof (induction qs rule: rev_induct)
  case Nil
  then show ?case by simp
next
  case (snoc p qs)
  show ?case
  proof (cases "qs = []")
    case True
    then have "first_best (qs @ [p]) 0 \<and> foldl topStep None (qs @ [p]) = Some ((qs @ [p]) ! 0)"
      by (simp add: first_best_single)
    then show ?thesis ..
  next
    case False
    with snoc.IH obtain i where i: "first_best qs i" "foldl topStep None qs = Some (qs ! i)"
      by blast
    then have len: "i < length qs"
      by (simp add: first_best_def)
    show ?thesis
    proof (cases "or0 (averageScore (qs ! i)) < or0 (averageScore p)")
      case True
      with i have "first_best (qs @ [p]) (length qs)"
        by (simp add: first_best_replace)
      moreover from True i have "foldl topStep None (qs @ [p]) = Some ((qs @ [p]) ! length qs)"
        by simp
      ultimately show ?thesis by blast
    next
      case False
      with i have "first_best (qs @ [p]) i"
        by (simp add: first_best_keep)
      moreover from False i len have "foldl topStep None (qs @ [p]) = Some ((qs @ [p]) ! i)"
        by (simp add: nth_append)
      ultimately show ?thesis by blast
    qed
  qed
qed

lemma topPerformer_unfold:
  "topPerformer (calculateTeamStats ps) = foldl topStep None (eligible ps)"
  by (cases ps) (simp_all add: calculateTeamStats_def eligible_def Let_def)


subsection \<open>Team average\<close>

text \<open>
  C1 (as the code has it). The team average is 0 when the summed match count is not
  greater than 0. Otherwise it is the result of double operations, each giving the
  double nearest to the exact result: the summed total score divided by the summed match
  count, multiplied by 100, rounded to an integer by \<^verbatim>\<open>Math.round\<close>, and divided by 100;
  the sums are accumulated from the left in the order of the roster, a missing field
  counting as 0. \<^verbatim>\<open>Math.round\<close> gives the nearest integer with a tie going towards plus
  infinity, which is rounding half away from zero for a value that is not negative. The
  sums are exact for match counts and total scores that are natural numbers with totals
  up to 2 to the power 53, so that the quotient, its product with 100 and the last
  division are then the only roundings to a double.
\<close>

theorem teamAverage_double_rounding:
  "teamAverageScore (calculateTeamStats ps) =
     (if gt0 (sumNum matchCount ps)
      then divideNum (Math_round (multiplyNum
             (divideNum (sumNum totalScore ps) (sumNum matchCount ps)) (Fin 100))) (Fin 100)
      else Fin 0) \<and>
   Math_round (Fin v) = Fin (of_int \<lfloor>v + 1 / 2\<rfloor>) \<and>
   (0 \<le> v \<longrightarrow> Math_round (Fin v) = Fin (round_half_away v)) \<and>
   ((\<forall>p\<in>set ps. or0 (matchCount p) \<in> \<nat> \<and> or0 (totalScore p) \<in> \<nat>) \<and>
    sum_list (map (\<lambda>p. or0 (matchCount p)) ps) \<le> 2 ^ 53 \<and>
    sum_list (map (\<lambda>p. or0 (totalScore p)) ps) \<le> 2 ^ 53 \<longrightarrow>
    teamAverageScore (calculateTeamStats ps) =
      (if 0 < sum_list (map (\<lambda>p. or0 (matchCount p)) ps)
       then divideNum (Math_round (multiplyNum
              (toDouble (sum_list (map (\<lambda>p. or0 (totalScore p)) ps) /
                         sum_list (map (\<lambda>p. or0 (matchCount p)) ps))) (Fin 100))) (Fin 100)
       else Fin 0))"
proof -
  have "teamAverageScore (calculateTeamStats ps) =
      (if 0 < sum_list (map (\<lambda>p. or0 (matchCount p)) ps)
       then divideNum (Math_round (multiplyNum
              (toDouble (sum_list (map (\<lambda>p. or0 (totalScore p)) ps) /
                         sum_list (map (\<lambda>p. or0 (matchCount p)) ps))) (Fin 100))) (Fin 100)
       else Fin 0)"
    if nat: "\<forall>p\<in>set ps. or0 (matchCount p) \<in> \<nat> \<and> or0 (totalScore p) \<in> \<nat>"
      and m: "sum_list (map (\<lambda>p. or0 (matchCount p)) ps) \<le> 2 ^ 53"
      and t: "sum_list (map (\<lambda>p. or0 (totalScore p)) ps) \<le> 2 ^ 53"
  proof -
    from nat m have "sumNum matchCount ps = Fin (sum_list (map (\<lambda>p. or0 (matchCount p)) ps))"
      by (intro sumNum_exact) simp_all
    moreover from nat t have "sumNum totalScore ps = Fin (sum_list (map (\<lambda>p. or0 (totalScore p)) ps))"
      by (intro sumNum_exact) simp_all
    ultimately show ?thesis
      by (simp add: average_unfold del: Math_round.simps)
  qed
  then show ?thesis
    by (simp add: average_unfold round_half_away_def del: Math_round.simps) simp
qed

theorem teamAverage_double_rounding_witness:
  "sum_list (map (\<lambda>p. or0 (matchCount p))
     [samplePlayer ''A'' 2 150 75, samplePlayer ''C'' 1 50 50]) = 3 \<and>
   sum_list (map (\<lambda>p. or0 (totalScore p))
     [samplePlayer ''A'' 2 150 75, samplePlayer ''C'' 1 50 50]) = 200 \<and>
   teamAverageScore (calculateTeamStats [samplePlayer ''A'' 2 150 75, samplePlayer ''C'' 1 50 50])
     = divideNum (Math_round (multiplyNum (toDouble (200 / 3)) (Fin 100))) (Fin 100) \<and>
   toDouble (200 / 3) = Fin (4691249611844267 / 70368744177664) \<and>
   multiplyNum (toDouble (200 / 3)) (Fin 100) = Fin (7330077518506667 / 1099511627776) \<and>
   Math_round (Fin (7330077518506667 / 1099511627776)) =
     Fin (round_half_away (7330077518506667 / 1099511627776)) \<and>
   round_half_away (7330077518506667 / 1099511627776) = 6667 \<and>
   teamAverageScore (calculateTeamStats [samplePlayer ''A'' 2 150 75, samplePlayer ''C'' 1 50 50])
     = Fin (4691484174324859 / 70368744177664) \<and>
   Math_round (Fin (- 25 / 2)) = Fin (- 12) \<and>
   round_half_away (- 25 / 2) = - 13 \<and>
   sumNum matchCount [samplePlayer ''A'' 9007199254740992 0 0, samplePlayer ''B'' 1 0 0]
     = Fin 9007199254740992"
proof -
  note inst = teamAverage_double_rounding
    [of "[samplePlayer ''A'' 2 150 75, samplePlayer ''C'' 1 50 50]"
        "7330077518506667 / 1099511627776"]
  have m: "sum_list (map (\<lambda>p. or0 (matchCount p))
     [samplePlayer ''A'' 2 150 75, samplePlayer ''C'' 1 50 50]) = 3"
    by (simp add: samplePlayer_def)
  have t: "sum_list (map (\<lambda>p. or0 (totalScore p))
     [samplePlayer ''A'' 2 150 75, samplePlayer ''C'' 1 50 50]) = 200"
    by (simp add: samplePlayer_def)
  have nat: "\<forall>p\<in>set [samplePlayer ''A'' 2 150 75, samplePlayer ''C'' 1 50 50].
      or0 (matchCount p) \<in> \<nat> \<and> or0 (totalScore p) \<in> \<nat>"
    by (simp add: samplePlayer_def)
  have hyp: "(\<forall>p\<in>set [samplePlayer ''A'' 2 150 75, samplePlayer ''C'' 1 50 50].
        or0 (matchCount p) \<in> \<nat> \<and> or0 (totalScore p) \<in> \<nat>) \<and>
      sum_list (map (\<lambda>p. or0 (matchCount p))
        [samplePlayer ''A'' 2 150 75, samplePlayer ''C'' 1 50 50]) \<le> 2 ^ 53 \<and>
      sum_list (map (\<lambda>p. or0 (totalScore p))
        [samplePlayer ''A'' 2 150 75, samplePlayer ''C'' 1 50 50]) \<le> 2 ^ 53"
    using nat unfolding m t by simp
  from inst [THEN conjunct2, THEN conjunct2, THEN conjunct2] hyp
  have "teamAverageScore
       (calculateTeamStats [samplePlayer ''A'' 2 150 75, samplePlayer ''C'' 1 50 50])
     = (if 0 < sum_list (map (\<lambda>p. or0 (matchCount p))
                 [samplePlayer ''A'' 2 150 75, samplePlayer ''C'' 1 50 50])
        then divideNum (Math_round (multiplyNum
               (toDouble (sum_list (map (\<lambda>p. or0 (totalScore p))
                            [samplePlayer ''A'' 2 150 75, samplePlayer ''C'' 1 50 50]) /
                          sum_list (map (\<lambda>p. or0 (matchCount p))
                            [samplePlayer ''A'' 2 150 75, samplePlayer ''C'' 1 50 50])))
               (Fin 100))) (Fin 100)
        else Fin 0)"
    by (rule mp)
  then have a: "teamAverageScore
       (calculateTeamStats [samplePlayer ''A'' 2 150 75, samplePlayer ''C'' 1 50 50])
     = divideNum (Math_round (multiplyNum (toDouble (200 / 3)) (Fin 100))) (Fin 100)"
    unfolding m t by (simp only: zero_less_numeral if_True)
  have "(0::rat) \<le> 7330077518506667 / 1099511627776"
    by simp
  with inst [THEN conjunct2, THEN conjunct2, THEN conjunct1]
  have r: "Math_round (Fin (7330077518506667 / 1099511627776)) =
     Fin (round_half_away (7330077518506667 / 1099511627776))"
    by (rule mp)
  have q: "toDouble (200 / 3) = Fin (4691249611844267 / 70368744177664)"
    by (simp add: num_eval)
  have p: "multiplyNum (toDouble (200 / 3)) (Fin 100) = Fin (7330077518506667 / 1099511627776)"
    unfolding q by (simp add: num_eval)
  have h: "round_half_away (7330077518506667 / 1099511627776) = 6667"
    by (simp add: round_half_away_def floor_rat_numeral)
  have d: "divideNum (Fin 6667) (Fin 100) = Fin (4691484174324859 / 70368744177664)"
    by (simp add: num_eval)
  have v: "teamAverageScore
       (calculateTeamStats [samplePlayer ''A'' 2 150 75, samplePlayer ''C'' 1 50 50])
     = Fin (4691484174324859 / 70368744177664)"
    unfolding a p r h by (rule d)
  have "Math_round (Fin (- 25 / 2)) = Fin (of_int \<lfloor>- 25 / 2 + 1 / 2 :: rat\<rfloor>)"
    by (rule teamAverage_double_rounding [of "[]" "- 25 / 2", THEN conjunct2, THEN conjunct1])
  then have n: "Math_round (Fin (- 25 / 2)) = Fin (- 12)"
    by simp
  have w: "round_half_away (- 25 / 2) = - 13"
    by (simp add: round_half_away_def)
  have b: "sumNum matchCount [samplePlayer ''A'' 9007199254740992 0 0, samplePlayer ''B'' 1 0 0]
     = Fin 9007199254740992"
    by (simp add: sumNum_def samplePlayer_def num_eval)
  show ?thesis
    by (intro conjI m t a q p r h v n w b)
qed

text \<open>
  C1 as stated fails, in exact arithmetic, for 23 points over 40 matches: the quotient
  0.575 times 100 is the tie 57.5, which rounded half away from zero and divided by 100
  is 0.58. The double nearest to 23 / 40 lies below 0.575, its product with 100 is the
  double 57.49999999999999, \<^verbatim>\<open>Math.round\<close> gives 57, and the code returns the double
  written 0.57.
\<close>

theorem teamAverage_exact_tie_counterexample:
  "gt0 (sumNum matchCount [samplePlayer ''A'' 40 23 0]) \<and>
   round2 (23 / 40) = 58 / 100 \<and>
   multiplyNum (divideNum (Fin 23) (Fin 40)) (Fin 100) =
     Fin (8092405580431359 / 140737488355328) \<and>
   teamAverageScore (calculateTeamStats [samplePlayer ''A'' 40 23 0]) = toDouble (57 / 100) \<and>
   toDouble (57 / 100) = Fin (5134103575202365 / 9007199254740992) \<and>
   toDouble (58 / 100) = Fin (5224175567749775 / 9007199254740992) \<and>
   teamAverageScore (calculateTeamStats [samplePlayer ''A'' 40 23 0]) \<noteq> toDouble (round2 (23 / 40)) \<and>
   teamAverageScore (calculateTeamStats [samplePlayer ''A'' 40 23 0]) \<noteq> Fin (round2 (23 / 40))"
proof -
  have s: "sumNum matchCount [samplePlayer ''A'' 40 23 0] = Fin 40"
    "sumNum totalScore [samplePlayer ''A'' 40 23 0] = Fin 23"
    by (simp_all add: sumNum_def samplePlayer_def num_eval)
  have p: "multiplyNum (divideNum (Fin 23) (Fin 40)) (Fin 100) =
     Fin (8092405580431359 / 140737488355328)"
    by (simp add: num_eval)
  have r: "Math_round (Fin (8092405580431359 / 140737488355328)) = Fin 57"
    by (simp add: floor_rat_numeral)
  have d: "divideNum (Fin 57) (Fin 100) = Fin (5134103575202365 / 9007199254740992)"
    "toDouble (57 / 100) = Fin (5134103575202365 / 9007199254740992)"
    "toDouble (58 / 100) = Fin (5224175567749775 / 9007199254740992)"
    by (simp_all add: num_eval)
  have c: "round2 (23 / 40) = 58 / 100"
    by (simp add: round2_def round_half_away_def floor_rat_numeral)
  have g: "gt0 (sumNum matchCount [samplePlayer ''A'' 40 23 0])"
    by (simp add: s)
  have v: "teamAverageScore (calculateTeamStats [samplePlayer ''A'' 40 23 0]) =
      Fin (5134103575202365 / 9007199254740992)"
    using s p r d(1)
    by (simp add: average_unfold del: Math_round.simps divideNum.simps multiplyNum.simps)
  have t: "teamAverageScore (calculateTeamStats [samplePlayer ''A'' 40 23 0]) = toDouble (57 / 100)"
    by (simp only: v d(2))
  have n1: "teamAverageScore (calculateTeamStats [samplePlayer ''A'' 40 23 0]) \<noteq>
      toDouble (round2 (23 / 40))"
    unfolding v c d(3) by simp
  have n2: "teamAverageScore (calculateTeamStats [samplePlayer ''A'' 40 23 0]) \<noteq>
      Fin (round2 (23 / 40))"
    unfolding v c by simp
  show ?thesis
    by (intro conjI g c p t d(2) d(3) n1 n2)
qed

subsection \<open>Top performer\<close>

text \<open>
  C2. The top performer is the left fold of \<open>topStep\<close> over the records with a positive
  match count (missing counted as 0), starting from nothing; a step replaces the current
  best exactly when the candidate's average (missing counted as 0) is strictly greater.
  The result is absent exactly when no record has a positive match count; otherwise it is
  the record at the first position, among the eligible ones, whose average is maximal.
\<close>

theorem topPerformer_first_maximal:
  "topPerformer (calculateTeamStats ps) = foldl topStep None (eligible ps) \<and>
   topStep None p = Some p \<and>
   topStep (Some best) p =
     Some (if or0 (averageScore best) < or0 (averageScore p) then p else best) \<and>
   (topPerformer (calculateTeamStats ps) = None) = (eligible ps = []) \<and>
   (topPerformer (calculateTeamStats ps) = None) = (\<not> (\<exists>q\<in>set ps. 0 < or0 (matchCount q))) \<and>
   (eligible ps \<noteq> [] \<longrightarrow>
      (\<exists>i. first_best (eligible ps) i \<and>
           topPerformer (calculateTeamStats ps) = Some (eligible ps ! i)))"
proof -
  have none: "(foldl topStep None (eligible ps) = None) = (eligible ps = [])"
  proof (cases "eligible ps = []")
    case True
    then show ?thesis by simp
  next
    case False
    with foldl_topStep_first_best [of "eligible ps"] show ?thesis by auto
  qed
  have "(eligible ps = []) = (\<not> (\<exists>q\<in>set ps. 0 < or0 (matchCount q)))"
    by (simp add: eligible_def filter_empty_conv)
  with none show ?thesis
    using foldl_topStep_first_best [of "eligible ps"]
    by (simp add: topPerformer_unfold)
qed

theorem topPerformer_first_maximal_witness:
  "eligible [samplePlayer ''Z'' 0 0 99, samplePlayer ''A'' 1 75 75, samplePlayer ''B'' 2 150 75,
             samplePlayer ''C'' 3 180 60] \<noteq> [] \<and>
   first_best [samplePlayer ''A'' 1 75 75, samplePlayer ''B'' 2 150 75, samplePlayer ''C'' 3 180 60] 0 \<and>
   topPerformer (calculateTeamStats
     [samplePlayer ''Z'' 0 0 99, samplePlayer ''A'' 1 75 75, samplePlayer ''B'' 2 150 75,
      samplePlayer ''C'' 3 180 60]) = Some (samplePlayer ''A'' 1 75 75)"
  using topPerformer_first_maximal [of
      "[samplePlayer ''Z'' 0 0 99, samplePlayer ''A'' 1 75 75, samplePlayer ''B'' 2 150 75,
        samplePlayer ''C'' 3 180 60]"]
  by (simp add: eligible_def samplePlayer_def first_best_def less_Suc_eq
      calculateTeamStats_def Let_def all_conj_distrib)

subsection \<open>Records without matches\<close>

text \<open>
  C3 (as the code has it). Taking out the records whose match count is 0 or missing
  leaves the team average unchanged, provided each of them has a total score of 0 (or
  none): the code adds up the total score of every record, whatever its match count.
\<close>

theorem dropZeroMatch_average:
  "\<forall>p\<in>set ps. or0 (matchCount p) = 0 \<longrightarrow> or0 (totalScore p) = 0 \<Longrightarrow>
   teamAverageScore (calculateTeamStats (dropZeroMatch ps)) =
   teamAverageScore (calculateTeamStats ps)"
proof -
  assume h: "\<forall>p\<in>set ps. or0 (matchCount p) = 0 \<longrightarrow> or0 (totalScore p) = 0"
  have z: "isDouble (Fin 0)"
    by (simp add: toDouble_zero)
  have "sumNum matchCount (dropZeroMatch ps) = sumNum matchCount ps"
    unfolding sumNum_def dropZeroMatch_def
    by (rule foldl_addNum_drop [OF _ z]) simp
  moreover have "sumNum totalScore (dropZeroMatch ps) = sumNum totalScore ps"
    unfolding sumNum_def dropZeroMatch_def
    by (rule foldl_addNum_drop [OF _ z]) (use h in simp)
  ultimately show ?thesis
    by (simp only: average_unfold)
qed

theorem dropZeroMatch_average_witness:
  "or0 (matchCount (samplePlayer ''B'' 0 0 0)) = 0 \<and>
   or0 (totalScore (samplePlayer ''B'' 0 0 0)) = 0 \<and>
   dropZeroMatch [samplePlayer ''A'' 2 150 75, samplePlayer ''B'' 0 0 0]
     = [samplePlayer ''A'' 2 150 75] \<and>
   teamAverageScore (calculateTeamStats [samplePlayer ''A'' 2 150 75]) =
   teamAverageScore (calculateTeamStats [samplePlayer ''A'' 2 150 75, samplePlayer ''B'' 0 0 0])"
  using dropZeroMatch_average [of "[samplePlayer ''A'' 2 150 75, samplePlayer ''B'' 0 0 0]"]
  by (simp add: dropZeroMatch_def samplePlayer_def)

text \<open>
  C3 as stated fails when a record without matches carries a total score: with 150 over
  2 matches and a second record of 0 matches and total score 50 the average is 100, and
  75 once the second record is taken out.
\<close>

theorem dropZeroMatch_average_counterexample:
  "dropZeroMatch [samplePlayer ''A'' 2 150 75, samplePlayer ''B'' 0 50 0]
     = [samplePlayer ''A'' 2 150 75] \<and>
   teamAverageScore (calculateTeamStats [samplePlayer ''A'' 2 150 75, samplePlayer ''B'' 0 50 0])
     = Fin 100 \<and>
   teamAverageScore (calculateTeamStats
     (dropZeroMatch [samplePlayer ''A'' 2 150 75, samplePlayer ''B'' 0 50 0])) = Fin 75"
  by (simp add: calculateTeamStats_def dropZeroMatch_def samplePlayer_def Let_def num_eval)


section \<open>Properties of the report export\<close>

subsection \<open>Reading the report back\<close>

lemma join_Cons: "join sep (x # xs) = (if xs = [] then x else x @ sep @ join sep xs)"
  by (cases xs) simp_all

lemma special_distinct:
  "comma \<noteq> dquote" "comma \<noteq> newline" "dquote \<noteq> newline"
  "dquote \<noteq> comma" "newline \<noteq> comma" "newline \<noteq> dquote"
  by (simp_all add: comma_def dquote_def newline_def)

lemma parse_unquoted_run:
  "comma \<notin> set s \<Longrightarrow> newline \<notin> set s \<Longrightarrow>
   csv_parse Unquoted cur row rows (s @ rest) = csv_parse Unquoted (cur @ s) row rows rest"
  by (induction s arbitrary: cur) auto

lemma parse_plain_cell:
  assumes "comma \<notin> set s" and "dquote \<notin> set s" and "newline \<notin> set s" and "s \<noteq> []"
  shows "csv_parse CellStart [] row rows (s @ rest) = csv_parse Unquoted s row rows rest"
proof (cases s)
  case Nil
  with assms(4) show ?thesis by simp
next
  case (Cons c cs)
  with assms have "c \<noteq> comma" "c \<noteq> dquote" "c \<noteq> newline"
    and "comma \<notin> set cs" "newline \<notin> set cs"
    by auto
  then show ?thesis
    using Cons parse_unquoted_run [of cs "[c]" row rows rest] by simp
qed

lemma parse_quoted_run:
  "csv_parse Quoted cur row rows (replaceQuotes s @ dquote # rest) =
   csv_parse QuoteSeen (cur @ s) row rows rest"
  by (induction s arbitrary: cur) simp_all

lemma parse_quoted_cell:
  "csv_parse CellStart [] row rows ([dquote] @ replaceQuotes s @ [dquote] @ rest) =
   csv_parse QuoteSeen s row rows rest"
  using parse_quoted_run [of "[]" row rows s rest] by simp

lemma parse_cell_comma:
  "csv_parse CellStart [] row rows (escapeStr s @ comma # rest) =
   csv_parse CellStart [] (row @ [s]) rows rest"
proof (cases "comma \<in> set s \<or> dquote \<in> set s \<or> newline \<in> set s")
  case True
  then have "escapeStr s @ comma # rest = [dquote] @ replaceQuotes s @ [dquote] @ (comma # rest)"
    by (simp add: escapeStr_def)
  then show ?thesis
    by (simp only: parse_quoted_cell) (simp add: special_distinct)
next
  case False
  then have e: "escapeStr s = s"
    by (simp add: escapeStr_def)
  show ?thesis
  proof (cases "s = []")
    case True
    with e show ?thesis
      by (simp add: special_distinct)
  next
    case nonempty: False
    with False have "csv_parse CellStart [] row rows (s @ comma # rest) =
        csv_parse Unquoted s row rows (comma # rest)"
      by (simp add: parse_plain_cell)
    with e show ?thesis by simp
  qed
qed

lemma parse_cell_newline:
  "csv_parse CellStart [] row rows (escapeStr s @ newline # rest) =
   csv_parse CellStart [] [] (rows @ [row @ [s]]) rest"
proof (cases "comma \<in> set s \<or> dquote \<in> set s \<or> newline \<in> set s")
  case True
  then have "escapeStr s @ newline # rest = [dquote] @ replaceQuotes s @ [dquote] @ (newline # rest)"
    by (simp add: escapeStr_def)
  then show ?thesis
    by (simp only: parse_quoted_cell) (simp add: special_distinct)
next
  case False
  then have e: "escapeStr s = s"
    by (simp add: escapeStr_def)
  show ?thesis
  proof (cases "s = []")
    case True
    with e show ?thesis
      by (simp add: special_distinct)
  next
    case nonempty: False
    with False have "csv_parse CellStart [] row rows (s @ newline # rest) =
        csv_parse Unquoted s row rows (newline # rest)"
      by (simp add: parse_plain_cell)
    with e show ?thesis by (simp add: special_distinct)
  qed
qed

lemma parse_cell_end:
  "csv_parse CellStart [] row rows (escapeStr s) = rows @ [row @ [s]]"
proof (cases "comma \<in> set s \<or> dquote \<in> set s \<or> newline \<in> set s")
  case True
  then have "escapeStr s = [dquote] @ replaceQuotes s @ [dquote] @ []"
    by (simp add: escapeStr_def)
  then show ?thesis
    by (simp only: parse_quoted_cell) simp
next
  case False
  then have e: "escapeStr s = s"
    by (simp add: escapeStr_def)
  show ?thesis
  proof (cases "s = []")
    case True
    with e show ?thesis by simp
  next
    case nonempty: False
    with False have "csv_parse CellStart [] row rows (s @ []) = csv_parse Unquoted s row rows []"
      by (intro parse_plain_cell) simp_all
    with e show ?thesis by simp
  qed
qed

lemma parse_row_newline:
  "cells \<noteq> [] \<Longrightarrow>
   csv_parse CellStart [] row rows (join [comma] (map escapeStr cells) @ newline # rest) =
   csv_parse CellStart [] [] (rows @ [row @ cells]) rest"
proof (induction cells arbitrary: row)
  case Nil
  then show ?case by simp
next
  case (Cons s cells)
  show ?case
  proof (cases "cells = []")
    case True
    then show ?thesis
      by (simp add: parse_cell_newline)
  next
    case False
    with Cons.IH [of "row @ [s]"] show ?thesis
      by (simp add: join_Cons parse_cell_comma)
  qed
qed

lemma parse_row_end:
  "cells \<noteq> [] \<Longrightarrow>
   csv_parse CellStart [] row rows (join [comma] (map escapeStr cells)) = rows @ [row @ cells]"
proof (induction cells arbitrary: row)
  case Nil
  then show ?case by simp
next
  case (Cons s cells)
  show ?case
  proof (cases "cells = []")
    case True
    then show ?thesis
      by (simp add: parse_cell_end)
  next
    case False
    with Cons.IH [of "row @ [s]"] show ?thesis
      by (simp add: join_Cons parse_cell_comma)
  qed
qed

lemma parse_rows:
  "rws \<noteq> [] \<Longrightarrow> \<forall>r\<in>set rws. r \<noteq> [] \<Longrightarrow>
   csv_parse CellStart [] [] rows
     (join [newline] (map (\<lambda>r. join [comma] (map escapeStr r)) rws)) = rows @ rws"
proof (induction rws arbitrary: rows)
  case Nil
  then show ?case by simp
next
  case (Cons r rws)
  then have r: "r \<noteq> []" by simp
  show ?case
  proof (cases "rws = []")
    case True
    with r show ?thesis
      by (simp add: parse_row_end)
  next
    case False
    with Cons.prems have "csv_parse CellStart [] [] (rows @ [r])
        (join [newline] (map (\<lambda>r. join [comma] (map escapeStr r)) rws)) = (rows @ [r]) @ rws"
      by (intro Cons.IH) simp_all
    with False r show ?thesis
      by (simp add: join_Cons parse_row_newline)
  qed
qed

lemma map_escapeCell:
  "map (escapeCell numToString) row = map escapeStr (map (String_cell numToString) row)"
  by (induction row) (simp_all add: escapeCell_def)

lemma allRows_nonempty:
  "allRows numToString today d \<noteq> [] \<and> (\<forall>r\<in>set (allRows numToString today d). r \<noteq> [])"
  by (auto simp: allRows_def summaryRows_def headers_def playerRow_def)

lemma parse_report:
  "parse_csv (handleExportReport numToString today d) =
   map (map (String_cell numToString)) (allRows numToString today d)"
proof -
  let ?texts = "map (map (String_cell numToString)) (allRows numToString today d)"
  have "(\<lambda>row. join [comma] (map (escapeCell numToString) row)) =
        (\<lambda>r. join [comma] (map escapeStr r)) \<circ> map (String_cell numToString)"
  proof -
    have e: "escapeCell numToString = escapeStr \<circ> String_cell numToString"
      by (simp add: fun_eq_iff escapeCell_def)
    show ?thesis
      unfolding e by (simp add: fun_eq_iff)
  qed
  then have "handleExportReport numToString today d =
        join [newline] (map (\<lambda>r. join [comma] (map escapeStr r)) ?texts)"
    by (simp add: handleExportReport_def)
  moreover have "?texts \<noteq> []"
    using allRows_nonempty [of numToString today d] by simp
  moreover have "\<forall>r\<in>set ?texts. r \<noteq> []"
    using allRows_nonempty [of numToString today d] by auto
  ultimately show ?thesis
    using parse_rows [of ?texts "[]"] by (simp add: parse_csv_def)
qed

lemma length_replaceQuotes: "length s \<le> length (replaceQuotes s)"
  by (induction s) auto

lemma replaceQuotes_concat:
  "replaceQuotes s = concat (map (\<lambda>ch. if ch = dquote then [dquote, dquote] else [ch]) s)"
  by (induction s) simp_all

lemma quoted_differs: "[dquote] @ replaceQuotes s @ [dquote] \<noteq> s"
proof
  assume "[dquote] @ replaceQuotes s @ [dquote] = s"
  then have "length ([dquote] @ replaceQuotes s @ [dquote]) = length s"
    by simp
  with length_replaceQuotes [of s] show False
    by simp
qed

lemma report_rows:
  "parse_csv (handleExportReport numToString today d) =
     [[''Team Performance Report''],
      [''Coach Name'', orEmpty (userName d)],
      [''Report Date'', today],
      [''''],
      [''Team Statistics''],
      [''Total Players'', numToString (Fin (of_nat (totalPlayers (teamStatsOf d))))],
      [''Team Average Score'', numToString (teamAverageScore (teamStatsOf d)) @ ''%''],
      [''Total Matches'', numToString (totalMatches (teamStatsOf d))],
      [''Top Performer'', topPerformerName (teamStatsOf d)],
      [''''],
      [''Player Details''],
      [''Player Name'', ''Email'', ''Sport'', ''Current Score (%)'', ''Performance Status'',
       ''Total Matches'', ''Average Score'']] @
     map (\<lambda>p. [orEmpty (name p), orEmpty (email p), orEmpty (sport p),
               numToString (Fin (or0 (currentScore p))),
               getPerformanceStatus (or0 (currentScore p)),
               numToString (Fin (or0 (matchCount p))),
               numToString (Fin (or0 (averageScore p)))]) (players d)"
  by (simp add: parse_report allRows_def summaryRows_def headers_def playerRow_def comp_def)

subsection \<open>Cell escaping\<close>

text \<open>
  C4. A cell is written as the escaped form of its string. The escaped form of a string
  is the string between two double quotes, with each double quote of the string written
  twice, exactly when the string contains a comma, a double quote or a line feed;
  otherwise it is the string itself. Read back, the escaped form gives the string.
  The report is the rows joined by one line feed, each row being its cells joined by
  one comma. A player name with a comma opens its data row between double quotes, and
  the name \<open>He said "hi"\<close> is written \<open>"He said ""hi"""\<close>.
\<close>

theorem escapeCell_quotes_iff_special:
  "escapeCell numToString c = escapeStr (String_cell numToString c) \<and>
   (escapeStr s = [dquote] @ replaceQuotes s @ [dquote]) =
     (comma \<in> set s \<or> dquote \<in> set s \<or> newline \<in> set s) \<and>
   (escapeStr s = s) = (\<not> (comma \<in> set s \<or> dquote \<in> set s \<or> newline \<in> set s)) \<and>
   replaceQuotes s = concat (map (\<lambda>ch. if ch = dquote then [dquote, dquote] else [ch]) s) \<and>
   parse_csv (escapeStr s) = [[s]] \<and>
   handleExportReport numToString today d =
     join [newline] (map (\<lambda>row. join [comma] (map (escapeCell numToString) row))
                         (allRows numToString today d)) \<and>
   join sep [x] = x \<and>
   join sep (x # y # ys) = x @ sep @ join sep (y # ys) \<and>
   (name p = Some n \<and> comma \<in> set n \<longrightarrow>
      join [comma] (map (escapeCell numToString) (playerRow p)) =
        [dquote] @ replaceQuotes n @ [dquote] @ [comma] @
        join [comma] (map (escapeCell numToString) (tl (playerRow p)))) \<and>
   escapeStr (''He said '' @ [dquote] @ ''hi'' @ [dquote]) =
     [dquote] @ ''He said '' @ [dquote, dquote] @ ''hi'' @ [dquote, dquote] @ [dquote]"
proof -
  have iff1: "(escapeStr s = [dquote] @ replaceQuotes s @ [dquote]) =
      (comma \<in> set s \<or> dquote \<in> set s \<or> newline \<in> set s)"
    using quoted_differs [of s] by (auto simp: escapeStr_def)
  have iff2: "(escapeStr s = s) =
      (\<not> (comma \<in> set s \<or> dquote \<in> set s \<or> newline \<in> set s))"
    using quoted_differs [of s] by (auto simp: escapeStr_def)
  have readback: "parse_csv (escapeStr s) = [[s]]"
    by (simp add: parse_csv_def parse_cell_end)
  have row: "join [comma] (map (escapeCell numToString) (playerRow p)) =
        [dquote] @ replaceQuotes n @ [dquote] @ [comma] @
        join [comma] (map (escapeCell numToString) (tl (playerRow p)))"
    if "name p = Some n" and "comma \<in> set n"
    using that by (simp add: playerRow_def escapeCell_def escapeStr_def)
  have ex: "escapeStr (''He said '' @ [dquote] @ ''hi'' @ [dquote]) =
     [dquote] @ ''He said '' @ [dquote, dquote] @ ''hi'' @ [dquote, dquote] @ [dquote]"
    by (simp add: escapeStr_def dquote_def)
  from iff1 iff2 readback row ex show ?thesis
    by (simp only: escapeCell_def handleExportReport_def join.simps replaceQuotes_concat [symmetric])
      blast
qed

theorem escapeCell_quotes_iff_special_witness:
  "name (samplePlayer ''Doe, John'' 2 150 75) = Some ''Doe, John'' \<and>
   comma \<in> set ''Doe, John'' \<and>
   escapeCell showInt (Str ''Doe, John'') = [dquote] @ ''Doe, John'' @ [dquote] \<and>
   escapeCell showInt (Num (Fin 75)) = ''75'' \<and>
   join [comma] (map (escapeCell showInt) (playerRow (samplePlayer ''Doe, John'' 2 150 75))) =
     [dquote] @ ''Doe, John'' @ [dquote] @ '','' @
     [dquote] @ ''Doe, John@team.example'' @ [dquote] @ '',cricket,75,Good,2,75''"
  using escapeCell_quotes_iff_special
    [where p = "samplePlayer ''Doe, John'' 2 150 75" and n = "''Doe, John''"
       and numToString = showInt and s = "''Doe, John''"]
  by (simp add: samplePlayer_def playerRow_def escapeCell_def escapeStr_def comma_def dquote_def
      newline_def showNat.simps getPerformanceStatus_def)

subsection \<open>Row order and column header\<close>

text \<open>
  C5. Read back, the report is: the title row, the coach-name row, the report-date row,
  a blank row, the Team Statistics header, the rows Total Players, Team Average Score
  (with a percent sign), Total Matches and Top Performer, a blank row, the Player
  Details header, the column header, and then one data row per player in the order of
  the input. The column header row is the twelfth row; its text and the cells read back
  from it are Player Name, Email, Sport, Current Score (%), Performance Status, Total
  Matches, Average Score.
\<close>

theorem report_row_order:
  "parse_csv (handleExportReport numToString today d) =
     [[''Team Performance Report''],
      [''Coach Name'', orEmpty (userName d)],
      [''Report Date'', today],
      [''''],
      [''Team Statistics''],
      [''Total Players'', numToString (Fin (of_nat (totalPlayers (teamStatsOf d))))],
      [''Team Average Score'', numToString (teamAverageScore (teamStatsOf d)) @ ''%''],
      [''Total Matches'', numToString (totalMatches (teamStatsOf d))],
      [''Top Performer'', topPerformerName (teamStatsOf d)],
      [''''],
      [''Player Details''],
      [''Player Name'', ''Email'', ''Sport'', ''Current Score (%)'', ''Performance Status'',
       ''Total Matches'', ''Average Score'']] @
     map (\<lambda>p. [orEmpty (name p), orEmpty (email p), orEmpty (sport p),
               numToString (Fin (or0 (currentScore p))),
               getPerformanceStatus (or0 (currentScore p)),
               numToString (Fin (or0 (matchCount p))),
               numToString (Fin (or0 (averageScore p)))]) (players d) \<and>
   length (parse_csv (handleExportReport numToString today d)) = 12 + length (players d) \<and>
   parse_csv (handleExportReport numToString today d) ! 11 =
     [''Player Name'', ''Email'', ''Sport'', ''Current Score (%)'', ''Performance Status'',
      ''Total Matches'', ''Average Score''] \<and>
   join [comma] (map (escapeCell numToString) headers) =
     ''Player Name,Email,Sport,Current Score (%),Performance Status,Total Matches,Average Score'' \<and>
   parse_csv (join [comma] (map (escapeCell numToString) headers)) =
     [[''Player Name'', ''Email'', ''Sport'', ''Current Score (%)'', ''Performance Status'',
       ''Total Matches'', ''Average Score'']]"
proof -
  have line: "join [comma] (map (escapeCell numToString) headers) =
     ''Player Name,Email,Sport,Current Score (%),Performance Status,Total Matches,Average Score''"
    by (simp add: headers_def escapeCell_def escapeStr_def comma_def dquote_def newline_def)
  have "parse_csv (join [comma] (map (escapeCell numToString) headers)) =
        [map (String_cell numToString) headers]"
    unfolding map_escapeCell parse_csv_def
    using parse_row_end [of "map (String_cell numToString) headers" "[]" "[]"]
    by (simp add: headers_def)
  then have cells: "parse_csv (join [comma] (map (escapeCell numToString) headers)) =
     [[''Player Name'', ''Email'', ''Sport'', ''Current Score (%)'', ''Performance Status'',
       ''Total Matches'', ''Average Score'']]"
    by (simp add: headers_def)
  show ?thesis
    using line cells by (simp add: report_rows)
qed

theorem report_row_order_witness:
  "parse_csv (handleExportReport showInt ''2026-11-03''
     (sampleDashboard ''Kim'' [samplePlayer ''Doe, John'' 2 150 75, samplePlayer ''B'' 0 0 0])) =
   [[''Team Performance Report''],
    [''Coach Name'', ''Kim''],
    [''Report Date'', ''2026-11-03''],
    [''''],
    [''Team Statistics''],
    [''Total Players'', ''2''],
    [''Team Average Score'', ''75%''],
    [''Total Matches'', ''2''],
    [''Top Performer'', ''Doe, John''],
    [''''],
    [''Player Details''],
    [''Player Name'', ''Email'', ''Sport'', ''Current Score (%)'', ''Performance Status'',
     ''Total Matches'', ''Average Score''],
    [''Doe, John'', ''Doe, John@team.example'', ''cricket'', ''75'', ''Good'', ''2'', ''75''],
    [''B'', ''B@team.example'', ''cricket'', ''0'', ''Needs Improvement'', ''0'', ''0'']]"
proof -
  have "calculateTeamStats [samplePlayer ''Doe, John'' 2 150 75, samplePlayer ''B'' 0 0 0] =
      \<lparr>totalPlayers = 2, teamAverageScore = Fin 75, totalMatches = Fin 2,
       topPerformer = Some (samplePlayer ''Doe, John'' 2 150 75)\<rparr>"
    by (simp add: calculateTeamStats_def samplePlayer_def Let_def num_eval)
  then show ?thesis
    using report_row_order [of showInt "''2026-11-03''"
        "sampleDashboard ''Kim'' [samplePlayer ''Doe, John'' 2 150 75, samplePlayer ''B'' 0 0 0]"]
    by (simp add: sampleDashboard_def samplePlayer_def topPerformerName_def showNat.simps
        getPerformanceStatus_def)
qed

subsection \<open>Classification\<close>

text \<open>
  C6. The status of a score is Excellent from 80 up, Good from 60 up to but not
  including 80, and Needs Improvement below 60; nothing is clamped, so a negative score
  needs improvement and a score above 100 is excellent. The fifth cell of the data row
  of a player is the status of that player's current score when the player has one, and
  the status of 0 when the current score is missing.
\<close>

theorem status_thresholds:
  "(80 \<le> score \<longrightarrow> getPerformanceStatus score = ''Excellent'') \<and>
   (60 \<le> score \<and> score < 80 \<longrightarrow> getPerformanceStatus score = ''Good'') \<and>
   (score < 60 \<longrightarrow> getPerformanceStatus score = ''Needs Improvement'') \<and>
   (i < length (players d) \<and> currentScore (players d ! i) = Some x \<longrightarrow>
      parse_csv (handleExportReport numToString today d) ! (12 + i) ! 4 =
        getPerformanceStatus x) \<and>
   (i < length (players d) \<and> currentScore (players d ! i) = None \<longrightarrow>
      parse_csv (handleExportReport numToString today d) ! (12 + i) ! 4 =
        getPerformanceStatus 0)"
proof -
  have row: "parse_csv (handleExportReport numToString today d) ! (12 + i) ! 4 =
        getPerformanceStatus (or0 (currentScore (players d ! i)))"
    if "i < length (players d)"
    using that by (simp add: report_rows nth_append)
  have "parse_csv (handleExportReport numToString today d) ! (12 + i) ! 4 =
        getPerformanceStatus x"
    if "i < length (players d)" and "currentScore (players d ! i) = Some x"
    using that row by simp
  moreover have "parse_csv (handleExportReport numToString today d) ! (12 + i) ! 4 =
        getPerformanceStatus 0"
    if "i < length (players d)" and "currentScore (players d ! i) = None"
    using that row by simp
  ultimately show ?thesis
    by (simp add: getPerformanceStatus_def)
qed

theorem status_thresholds_witness:
  "getPerformanceStatus 80 = ''Excellent'' \<and> getPerformanceStatus 150 = ''Excellent'' \<and>
   getPerformanceStatus 60 = ''Good'' \<and> getPerformanceStatus (799 / 10) = ''Good'' \<and>
   getPerformanceStatus (599 / 10) = ''Needs Improvement'' \<and>
   getPerformanceStatus (- 5) = ''Needs Improvement'' \<and>
   parse_csv (handleExportReport showInt ''2026-11-03'' (sampleDashboard ''Kim''
     [(samplePlayer ''A'' 2 150 75)\<lparr>currentScore := Some 85\<rparr>,
      samplePlayer ''B'' 2 150 75,
      (samplePlayer ''C'' 1 90 90)\<lparr>currentScore := None\<rparr>])) ! (12 + 0) ! 4 = ''Excellent'' \<and>
   parse_csv (handleExportReport showInt ''2026-11-03'' (sampleDashboard ''Kim''
     [(samplePlayer ''A'' 2 150 75)\<lparr>currentScore := Some 85\<rparr>,
      samplePlayer ''B'' 2 150 75,
      (samplePlayer ''C'' 1 90 90)\<lparr>currentScore := None\<rparr>])) ! (12 + 1) ! 4 = ''Good'' \<and>
   parse_csv (handleExportReport showInt ''2026-11-03'' (sampleDashboard ''Kim''
     [(samplePlayer ''A'' 2 150 75)\<lparr>currentScore := Some 85\<rparr>,
      samplePlayer ''B'' 2 150 75,
      (samplePlayer ''C'' 1 90 90)\<lparr>currentScore := None\<rparr>])) ! (12 + 2) ! 4
     = ''Needs Improvement''"
  using status_thresholds [of 80] status_thresholds [of 150] status_thresholds [of 60]
    status_thresholds [of "799 / 10"] status_thresholds [of "599 / 10"] status_thresholds [of "- 5"]
    status_thresholds [where i = 0 and x = 85 and numToString = showInt
      and today = "''2026-11-03''" and d = "sampleDashboard ''Kim''
        [(samplePlayer ''A'' 2 150 75)\<lparr>currentScore := Some 85\<rparr>,
         samplePlayer ''B'' 2 150 75,
         (samplePlayer ''C'' 1 90 90)\<lparr>currentScore := None\<rparr>]"]
    status_thresholds [where i = 1 and x = 75 and numToString = showInt
      and today = "''2026-11-03''" and d = "sampleDashboard ''Kim''
        [(samplePlayer ''A'' 2 150 75)\<lparr>currentScore := Some 85\<rparr>,
         samplePlayer ''B'' 2 150 75,
         (samplePlayer ''C'' 1 90 90)\<lparr>currentScore := None\<rparr>]"]
    status_thresholds [where i = 2 and numToString = showInt
      and today = "''2026-11-03''" and d = "sampleDashboard ''Kim''
        [(samplePlayer ''A'' 2 150 75)\<lparr>currentScore := Some 85\<rparr>,
         samplePlayer ''B'' 2 150 75,
         (samplePlayer ''C'' 1 90 90)\<lparr>currentScore := None\<rparr>]"]
  by (simp add: sampleDashboard_def samplePlayer_def getPerformanceStatus_def)


section \<open>Properties of the registration form\<close>

subsection \<open>Regular expressions: the matcher decides the language\<close>

lemma nullable_lang: "nullable r \<longleftrightarrow> [] \<in> lang r"
  by (induction r) (auto intro: kstar_Nil)

lemma kstar_Cons_elim:
  assumes "x \<in> kstar A" and "x = c # w"
  shows "\<exists>u v. w = u @ v \<and> c # u \<in> A \<and> v \<in> kstar A"
  using assms
proof (induction arbitrary: w rule: kstar.induct)
  case kstar_Nil
  then show ?case by simp
next
  case (kstar_App u v)
  show ?case
  proof (cases u)
    case Nil
    with kstar_App show ?thesis by simp
  next
    case (Cons d u')
    with kstar_App.prems have "d = c" and "w = u' @ v"
      by simp_all
    with Cons kstar_App.hyps show ?thesis by blast
  qed
qed

lemma kstar_Cons:
  "c # w \<in> kstar A \<longleftrightarrow> (\<exists>u v. w = u @ v \<and> c # u \<in> A \<and> v \<in> kstar A)"
proof
  assume "c # w \<in> kstar A"
  then show "\<exists>u v. w = u @ v \<and> c # u \<in> A \<and> v \<in> kstar A"
    by (rule kstar_Cons_elim) simp
next
  assume "\<exists>u v. w = u @ v \<and> c # u \<in> A \<and> v \<in> kstar A"
  then obtain u v where "w = u @ v" "c # u \<in> A" "v \<in> kstar A"
    by blast
  then show "c # w \<in> kstar A"
    using kstar_App [of "c # u" A v] by simp
qed

lemma deriv_lang: "w \<in> lang (deriv c r) \<longleftrightarrow> c # w \<in> lang r"
proof (induction r arbitrary: w)
  case (Cat r s)
  show ?case
  proof (cases "nullable r")
    case True
    then have "[] \<in> lang r"
      by (simp add: nullable_lang)
    then show ?thesis
      using Cat True by (auto simp: Cons_eq_append_conv)
  next
    case False
    then have "[] \<notin> lang r"
      by (simp add: nullable_lang)
    then show ?thesis
      using Cat False by (auto simp: Cons_eq_append_conv)
  qed
next
  case (Star r)
  then show ?case
    by (auto simp: kstar_Cons)
qed auto

lemma match_whole_lang: "match_whole r s \<longleftrightarrow> s \<in> lang r"
  by (induction s arbitrary: r) (simp_all add: nullable_lang deriv_lang)

lemma match_here_lang: "match_here r s \<longleftrightarrow> (\<exists>u v. s = u @ v \<and> u \<in> lang r)"
proof (induction s arbitrary: r)
  case Nil
  then show ?case
    by (simp add: nullable_lang)
next
  case (Cons c cs)
  have "(\<exists>u v. c # cs = u @ v \<and> u \<in> lang r) \<longleftrightarrow>
        [] \<in> lang r \<or> (\<exists>u v. cs = u @ v \<and> c # u \<in> lang r)"
    by (auto simp: Cons_eq_append_conv)
  with Cons show ?case
    by (simp add: nullable_lang deriv_lang)
qed

lemma RegExp_test_lang:
  "RegExp_test r s \<longleftrightarrow> (\<exists>p u v. s = p @ u @ v \<and> u \<in> lang r)"
proof (induction s)
  case Nil
  then show ?case
    by (simp add: nullable_lang)
next
  case (Cons c cs)
  have "(\<exists>p u v. c # cs = p @ u @ v \<and> u \<in> lang r) \<longleftrightarrow>
        (\<exists>u v. c # cs = u @ v \<and> u \<in> lang r) \<or> (\<exists>p u v. cs = p @ u @ v \<and> u \<in> lang r)"
    (is "?L \<longleftrightarrow> ?A \<or> ?B")
  proof
    assume ?L
    then obtain p u v where puv: "c # cs = p @ u @ v" "u \<in> lang r"
      by blast
    show "?A \<or> ?B"
    proof (cases p)
      case Nil
      with puv show ?thesis by auto
    next
      case (Cons d p')
      with puv have "cs = p' @ u @ v" by simp
      with puv show ?thesis by blast
    qed
  next
    assume "?A \<or> ?B"
    then show ?L
    proof
      assume ?A
      then obtain u v where "c # cs = [] @ u @ v" "u \<in> lang r" by auto
      then show ?L by blast
    next
      assume ?B
      then obtain p u v where "c # cs = (c # p) @ u @ v" "u \<in> lang r" by auto
      then show ?L by blast
    qed
  qed
  with Cons show ?case
    by (simp only: RegExp_test.simps match_here_lang)
qed

lemma kstar_NonSpace: "w \<in> kstar (lang NonSpace) \<longleftrightarrow> (\<forall>c\<in>set w. \<not> is_space c)"
proof (induction w)
  case Nil
  then show ?case by (simp add: kstar_Nil)
next
  case (Cons c w)
  then show ?case
    by (auto simp: kstar_Cons)
qed

lemma lang_Plus_NonSpace: "u \<in> lang (Plus NonSpace) \<longleftrightarrow> token u"
proof (cases u)
  case Nil
  then show ?thesis
    by (simp add: Plus_def token_def)
next
  case (Cons c w)
  have "\<exists>a b. c # w = a @ b \<and> (\<exists>d. a = [d] \<and> \<not> is_space d) \<and> b \<in> kstar (lang NonSpace)"
    if "\<not> is_space c" and "w \<in> kstar (lang NonSpace)"
  proof -
    from that have "c # w = [c] @ w \<and> (\<exists>d. [c] = [d] \<and> \<not> is_space d) \<and> w \<in> kstar (lang NonSpace)"
      by simp
    then show ?thesis by blast
  qed
  then have "u \<in> lang (Plus NonSpace) \<longleftrightarrow> \<not> is_space c \<and> w \<in> kstar (lang NonSpace)"
    unfolding Plus_def using Cons by auto
  then show ?thesis
    using Cons kstar_NonSpace [of w] by (simp add: token_def)
qed

lemma lang_emailPattern:
  "s \<in> lang emailPattern \<longleftrightarrow>
     (\<exists>u v w. s = u @ ''@'' @ v @ ''.'' @ w \<and> token u \<and> token v \<and> token w)"
proof -
  have "s \<in> lang emailPattern \<longleftrightarrow>
        (\<exists>u v w. s = u @ ''@'' @ v @ ''.'' @ w \<and> u \<in> lang (Plus NonSpace) \<and>
           v \<in> lang (Plus NonSpace) \<and> w \<in> lang (Plus NonSpace))"
    unfolding emailPattern_def lang.simps by (simp; blast)
  then show ?thesis
    by (simp add: lang_Plus_NonSpace)
qed

lemma match_whole_emailPattern:
  "match_whole emailPattern s \<longleftrightarrow>
     (\<exists>u v w. s = u @ ''@'' @ v @ ''.'' @ w \<and> token u \<and> token v \<and> token w)"
  by (simp only: match_whole_lang lang_emailPattern)

lemma RegExp_test_emailPattern:
  "RegExp_test emailPattern s \<longleftrightarrow>
     (\<exists>p u v w q. s = p @ u @ ''@'' @ v @ ''.'' @ w @ q \<and> token u \<and> token v \<and> token w)"
  (is "?L \<longleftrightarrow> ?R")
proof
  assume ?L
  then obtain p x q where s: "s = p @ x @ q" and "x \<in> lang emailPattern"
    by (auto simp: RegExp_test_lang)
  then obtain u v w where "x = u @ ''@'' @ v @ ''.'' @ w" "token u" "token v" "token w"
    by (auto simp: lang_emailPattern)
  with s have "s = p @ u @ ''@'' @ v @ ''.'' @ w @ q \<and> token u \<and> token v \<and> token w"
    by simp
  then show ?R by blast
next
  assume ?R
  then obtain p u v w q where s: "s = p @ u @ ''@'' @ v @ ''.'' @ w @ q"
    and t: "token u" "token v" "token w"
    by blast
  from t have "u @ ''@'' @ v @ ''.'' @ w \<in> lang emailPattern"
    unfolding lang_emailPattern by blast
  moreover from s have "s = p @ (u @ ''@'' @ v @ ''.'' @ w) @ q"
    by simp
  ultimately show ?L
    unfolding RegExp_test_lang by blast
qed

subsection \<open>The error reported for each field\<close>

lemma map_of_nameRule:
  "map_of (nameRule c e) k =
     (if k = ''name'' \<and> trim (formName c) = [] then Some ''Full name is required''
      else if k = ''name'' \<and> length (trim (formName c)) < 2
        then Some ''Name must be at least 2 characters long''
      else map_of e k)"
  by (simp add: nameRule_def update_conv)

lemma map_of_emailRule:
  "map_of (emailRule c e) k =
     (if k = ''email'' \<and> trim (formEmail c) = [] then Some ''Email is required''
      else if k = ''email'' \<and> \<not> RegExp_test emailPattern (formEmail c)
        then Some ''Please enter a valid email address''
      else map_of e k)"
  by (simp add: emailRule_def update_conv)

lemma map_of_passwordRule:
  "map_of (passwordRule c e) k =
     (if k = ''password'' \<and> password c = [] then Some ''Password is required''
      else if k = ''password'' \<and> length (password c) < 6
        then Some ''Password must be at least 6 characters long''
      else map_of e k)"
  by (simp add: passwordRule_def update_conv)

lemma map_of_confirmPasswordRule:
  "map_of (confirmPasswordRule c e) k =
     (if k = ''confirmPassword'' \<and> confirmPassword c = [] then Some ''Please confirm your password''
      else if k = ''confirmPassword'' \<and> password c \<noteq> confirmPassword c
        then Some ''Passwords do not match''
      else map_of e k)"
  by (simp add: confirmPasswordRule_def update_conv)

lemma map_of_roleRule:
  "map_of (roleRule c e) k =
     (if k = ''role'' \<and> role c = [] then Some ''Please select your role'' else map_of e k)"
  by (simp add: roleRule_def update_conv)

lemma map_of_sportRule:
  "map_of (sportRule c e) k =
     (if k = ''sport'' \<and> role c = ''player'' \<and> formSport c = []
        then Some ''Please select your sport''
      else map_of e k)"
  by (simp add: sportRule_def update_conv)

lemmas map_of_rules =
  map_of_nameRule map_of_emailRule map_of_passwordRule map_of_confirmPasswordRule
  map_of_roleRule map_of_sportRule

lemma name_error:
  "map_of (validateForm c) ''name'' =
     (if trim (formName c) = [] then Some ''Full name is required''
      else if length (trim (formName c)) < 2 then Some ''Name must be at least 2 characters long''
      else None)"
  by (simp add: validateForm_def map_of_rules)

lemma email_error:
  "map_of (validateForm c) ''email'' =
     (if trim (formEmail c) = [] then Some ''Email is required''
      else if \<not> RegExp_test emailPattern (formEmail c)
        then Some ''Please enter a valid email address''
      else None)"
  by (simp add: validateForm_def map_of_rules)

lemma password_error:
  "map_of (validateForm c) ''password'' =
     (if password c = [] then Some ''Password is required''
      else if length (password c) < 6 then Some ''Password must be at least 6 characters long''
      else None)"
  by (simp add: validateForm_def map_of_rules)

lemma confirmPassword_error:
  "map_of (validateForm c) ''confirmPassword'' =
     (if confirmPassword c = [] then Some ''Please confirm your password''
      else if password c \<noteq> confirmPassword c then Some ''Passwords do not match''
      else None)"
  by (simp add: validateForm_def map_of_rules)

lemma role_error:
  "map_of (validateForm c) ''role'' =
     (if role c = [] then Some ''Please select your role'' else None)"
  by (simp add: validateForm_def map_of_rules)

lemma sport_error:
  "map_of (validateForm c) ''sport'' =
     (if role c = ''player'' \<and> formSport c = [] then Some ''Please select your sport'' else None)"
  by (simp add: validateForm_def map_of_rules)

lemma trim_all_space: "\<forall>c\<in>set s. is_space c \<Longrightarrow> trim s = []"
  by (auto simp: trim_def dest: set_dropWhileD)

lemmas validate_defs =
  validateForm_def nameRule_def emailRule_def passwordRule_def confirmPasswordRule_def
  roleRule_def sportRule_def sampleForm_def trim_def is_space_def emailPattern_def Plus_def

subsection \<open>Email format\<close>

text \<open>
  C7 (as the code has it). For a candidate whose email is not empty after trimming, the
  error for the email is the invalid-format message exactly when the email value has no
  substring of the form token, at sign, token, dot, token, a token being one or more
  characters that are not white space. The pattern has no anchors: it is searched for
  anywhere in the value, which is not trimmed for the search.
\<close>

theorem email_invalid_iff_no_occurrence:
  "trim (formEmail c) \<noteq> [] \<Longrightarrow>
   (map_of (validateForm c) ''email'' = Some ''Please enter a valid email address'') =
   (\<not> (\<exists>p u v w q. formEmail c = p @ u @ ''@'' @ v @ ''.'' @ w @ q \<and>
          token u \<and> token v \<and> token w))"
  by (simp add: email_error RegExp_test_emailPattern)

theorem email_invalid_iff_no_occurrence_witness:
  "trim ''bad'' \<noteq> [] \<and>
   map_of (validateForm (sampleForm ''A'' ''bad'' ''123'' ''1234'' ''player'' '''')) ''email''
     = Some ''Please enter a valid email address'' \<and>
   \<not> (\<exists>p u v w q. ''bad'' = p @ u @ ''@'' @ v @ ''.'' @ w @ q \<and> token u \<and> token v \<and> token w)"
proof -
  have t: "trim ''bad'' \<noteq> []"
    by (simp add: trim_def is_space_def)
  have e: "map_of (validateForm (sampleForm ''A'' ''bad'' ''123'' ''1234'' ''player'' '''')) ''email''
      = Some ''Please enter a valid email address''"
    by (simp add: validate_defs)
  from t e show ?thesis
    using email_invalid_iff_no_occurrence
      [of "sampleForm ''A'' ''bad'' ''123'' ''1234'' ''player'' ''''"]
    by (simp add: sampleForm_def)
qed

text \<open>
  C7 as stated fails: \<open>a b@c.d\<close> is not empty after trimming and, as an entire value, is
  not of the form token, at sign, token, dot, token (it contains a space), yet no email
  error is reported, since \<open>b@c.d\<close> occurs in it.
\<close>

theorem email_entire_value_counterexample:
  "trim ''a b@c.d'' \<noteq> [] \<and>
   \<not> match_whole emailPattern ''a b@c.d'' \<and>
   map_of (validateForm (sampleForm ''Jane Doe'' ''a b@c.d'' ''secret1'' ''secret1'' ''coach'' ''''))
     ''email'' = None"
  by (simp add: validate_defs)

subsection \<open>All rules are evaluated\<close>

text \<open>
  C8. Every rule is evaluated and decides the entry of its own field, whatever the other
  fields are, so all the errors are reported together. For the candidate with name A,
  email bad, password 123, confirmation 1234, role player and no sport, the result holds
  exactly the errors for name (too short), email (invalid format), password (too short),
  confirmPassword (mismatch) and sport (required), and none for role.
\<close>

theorem validateForm_reports_all_errors:
  "map_of (validateForm c) ''name'' =
     (if trim (formName c) = [] then Some ''Full name is required''
      else if length (trim (formName c)) < 2 then Some ''Name must be at least 2 characters long''
      else None) \<and>
   map_of (validateForm c) ''email'' =
     (if trim (formEmail c) = [] then Some ''Email is required''
      else if \<not> RegExp_test emailPattern (formEmail c)
        then Some ''Please enter a valid email address''
      else None) \<and>
   map_of (validateForm c) ''password'' =
     (if password c = [] then Some ''Password is required''
      else if length (password c) < 6 then Some ''Password must be at least 6 characters long''
      else None) \<and>
   map_of (validateForm c) ''confirmPassword'' =
     (if confirmPassword c = [] then Some ''Please confirm your password''
      else if password c \<noteq> confirmPassword c then Some ''Passwords do not match''
      else None) \<and>
   map_of (validateForm c) ''role'' =
     (if role c = [] then Some ''Please select your role'' else None) \<and>
   map_of (validateForm c) ''sport'' =
     (if role c = ''player'' \<and> formSport c = [] then Some ''Please select your sport'' else None) \<and>
   validateForm (sampleForm ''A'' ''bad'' ''123'' ''1234'' ''player'' '''') =
     [(''name'', ''Name must be at least 2 characters long''),
      (''email'', ''Please enter a valid email address''),
      (''password'', ''Password must be at least 6 characters long''),
      (''confirmPassword'', ''Passwords do not match''),
      (''sport'', ''Please select your sport'')] \<and>
   map_of (validateForm (sampleForm ''A'' ''bad'' ''123'' ''1234'' ''player'' '''')) ''role'' = None"
proof -
  have "validateForm (sampleForm ''A'' ''bad'' ''123'' ''1234'' ''player'' '''') =
     [(''name'', ''Name must be at least 2 characters long''),
      (''email'', ''Please enter a valid email address''),
      (''password'', ''Password must be at least 6 characters long''),
      (''confirmPassword'', ''Passwords do not match''),
      (''sport'', ''Please select your sport'')]"
    by (simp add: validate_defs)
  then show ?thesis
    by (simp only: name_error email_error password_error confirmPassword_error role_error
        sport_error) simp
qed

subsection \<open>Sport is required of players only\<close>

text \<open>
  C9. The error for sport is reported exactly when the role is player and the sport is
  empty; no other role has one. The coach Jane Doe with a valid email, matching
  passwords and no sport has no error at all.
\<close>

theorem sport_required_iff_player:
  "(map_of (validateForm c) ''sport'' = Some ''Please select your sport'') =
     (role c = ''player'' \<and> formSport c = []) \<and>
   (map_of (validateForm c) ''sport'' = None) = (\<not> (role c = ''player'' \<and> formSport c = [])) \<and>
   validateForm (sampleForm ''Jane Doe'' ''jane@x.com'' ''secret1'' ''secret1'' ''coach'' '''') = []"
proof -
  have "validateForm (sampleForm ''Jane Doe'' ''jane@x.com'' ''secret1'' ''secret1'' ''coach'' '''') = []"
    by (simp add: validate_defs)
  then show ?thesis
    by (simp add: sport_error)
qed

subsection \<open>Passwords are not trimmed\<close>

text \<open>
  C10. A password of at least 6 characters, all of them white space, with an identical
  confirmation, has no password error and no confirmPassword error, although the same
  string as a name or as an email is empty after trimming and is reported as missing.
\<close>

theorem password_not_trimmed:
  assumes "6 \<le> length (password c)"
    and "\<forall>ch\<in>set (password c). is_space ch"
    and "confirmPassword c = password c"
  shows "map_of (validateForm c) ''password'' = None \<and>
         map_of (validateForm c) ''confirmPassword'' = None \<and>
         trim (password c) = [] \<and>
         (formName c = password c \<longrightarrow>
            map_of (validateForm c) ''name'' = Some ''Full name is required'') \<and>
         (formEmail c = password c \<longrightarrow>
            map_of (validateForm c) ''email'' = Some ''Email is required'')"
proof -
  from assms(1) have ne: "password c \<noteq> []"
    by auto
  from assms(2) have tr: "trim (password c) = []"
    by (rule trim_all_space)
  from ne assms(1) have "map_of (validateForm c) ''password'' = None"
    by (simp add: password_error)
  moreover from ne assms(3) have "map_of (validateForm c) ''confirmPassword'' = None"
    by (simp add: confirmPassword_error)
  ultimately show ?thesis
    using tr by (simp add: name_error email_error)
qed

theorem password_not_trimmed_witness:
  "length ''      '' = 6 \<and>
   validateForm (sampleForm ''      '' ''      '' ''      '' ''      '' ''coach'' '''') =
     [(''name'', ''Full name is required''), (''email'', ''Email is required'')] \<and>
   map_of (validateForm (sampleForm ''      '' ''      '' ''      '' ''      '' ''coach'' ''''))
     ''password'' = None \<and>
   map_of (validateForm (sampleForm ''      '' ''      '' ''      '' ''      '' ''coach'' ''''))
     ''confirmPassword'' = None"
proof -
  have v: "validateForm (sampleForm ''      '' ''      '' ''      '' ''      '' ''coach'' '''') =
     [(''name'', ''Full name is required''), (''email'', ''Email is required'')]"
    by (simp add: validate_defs)
  have "6 \<le> length (password (sampleForm ''      '' ''      '' ''      '' ''      '' ''coach'' ''''))"
    by (simp add: sampleForm_def)
  moreover have "\<forall>ch\<in>set (password (sampleForm ''      '' ''      '' ''      '' ''      '' ''coach'' '''')).
      is_space ch"
    by (simp add: sampleForm_def is_space_def)
  moreover have "confirmPassword (sampleForm ''      '' ''      '' ''      '' ''      '' ''coach'' '''')
      = password (sampleForm ''      '' ''      '' ''      '' ''      '' ''coach'' '''')"
    by (simp add: sampleForm_def)
  ultimately have "map_of (validateForm (sampleForm ''      '' ''      '' ''      '' ''      '' ''coach'' ''''))
        ''password'' = None \<and>
      map_of (validateForm (sampleForm ''      '' ''      '' ''      '' ''      '' ''coach'' ''''))
        ''confirmPassword'' = None"
    using password_not_trimmed
      [of "sampleForm ''      '' ''      '' ''      '' ''      '' ''coach'' ''''"]
    by blast
  with v show ?thesis
    by simp
qed


end
